theory Spec2Isabelle
  imports Complex_Main
begin

section \<open>Tensors, Python values and exceptions\<close>

text \<open>
  A tensor of shape [B, N, C] is a list (batch) of token sequences; a token is its vector
  of channels. Floating-point numbers are idealised as reals. The size tensor [B, N, 1]
  and the source tensor [B, N, T] are tensors of the same kind. A torch tensor is
  rectangular: every batch element has N tokens, every token C channels.
\<close>

type_synonym token = "real list"
type_synonym seq = "token list"
type_synonym tensor = "seq list"

datatype error =
    AssertionError | AttributeError | IndexError | KeyError
  | RuntimeError | TypeError | ValueError | ZeroDivisionError | OutOfMemoryError
  | KeyboardInterrupt | SystemExit

text \<open>What an attention module may store under a dictionary key.\<close>

datatype pyval = PyTensor tensor | PyFloat real | PyInt int | PyStr string | PyNone

text \<open>\<^verbatim>\<open>isinstance(v, (float, torch.Tensor))\<close>\<close>

fun isinstance_float_Tensor :: "pyval \<Rightarrow> bool" where
  "isinstance_float_Tensor (PyTensor t) = True"
| "isinstance_float_Tensor (PyFloat f) = True"
| "isinstance_float_Tensor v = False"

definition shape :: "tensor \<Rightarrow> nat list list" where
  "shape x = map (map length) x"

text \<open>
  The residual \<^verbatim>\<open>x + y\<close> on tensors of one shape; a shape mismatch is the RuntimeError
  of torch (broadcasting of unequal shapes is not modelled).
\<close>

definition tensor_add :: "tensor \<Rightarrow> tensor \<Rightarrow> error + tensor" where
  "tensor_add x y =
     (if shape x = shape y then Inr (map2 (map2 (map2 (+))) x y) else Inl RuntimeError)"

section \<open>The shared dictionary \<^verbatim>\<open>_tome_info\<close>\<close>

text \<open>
  The value under key "r": the integer 0 written by the patch, a (ratio, inflect) pair
  written by a caller, or the per-layer schedule list written by the forward prologue.
\<close>

datatype r_value = RInt int | RTuple real real | RList "int list"

text \<open>\<^verbatim>\<open>self._tome_info["r"].pop(0)\<close>: the popped entry and the list left behind.\<close>

fun pop0 :: "r_value \<Rightarrow> error + (int \<times> r_value)" where
  "pop0 (RList []) = Inl IndexError"
| "pop0 (RList (v # vs)) = Inr (v, RList vs)"
| "pop0 (RInt i) = Inl AttributeError"
| "pop0 (RTuple a b) = Inl AttributeError"

record tome_info =
  tome_r :: r_value
  tome_size :: "tensor option"
  tome_source :: "tensor option"
  total_merge :: "int option"
  trace_source :: bool
  prop_attn :: bool
  class_token :: bool
  distill_token :: bool

text \<open>
  The functions imported from \<^verbatim>\<open>opentome.tome.tome\<close> (line 21), whose code is not part
  of the sources: they are parameters of the model. \<open>'m\<close> is the type of the merge
  closure returned by the matcher.
\<close>

record 'm tome_lib =
  bipartite_soft_matching :: "pyval \<Rightarrow> int \<Rightarrow> bool \<Rightarrow> bool \<Rightarrow> error + ('m \<times> 'm)"
  merge_source :: "'m \<Rightarrow> tensor \<Rightarrow> tensor option \<Rightarrow> error + tensor"
  merge_wavg :: "'m \<Rightarrow> tensor \<Rightarrow> tensor option \<Rightarrow> error + (tensor \<times> tensor)"
  parse_r :: "nat \<Rightarrow> r_value \<Rightarrow> int option \<Rightarrow> error + int list"

section \<open>ToMeBlock\<close>

text \<open>
  The sublayers of a transformer block are opaque modules. The attention module takes the
  normalised tokens and the optional size and returns its output with a dictionary.
  \<^verbatim>\<open>drop_path1\<close>, \<^verbatim>\<open>drop_path2\<close> and \<^verbatim>\<open>drop_path\<close> are attributes a block may lack.
\<close>

type_synonym result = "(error \<times> tome_info) + (tensor \<times> tome_info)"

record block =
  norm1 :: "tensor \<Rightarrow> tensor"
  attn :: "tensor \<Rightarrow> tensor option \<Rightarrow> error + (tensor \<times> (string \<Rightarrow> pyval option))"
  ls1 :: "tensor \<Rightarrow> tensor"
  drop_path1 :: "(tensor \<Rightarrow> tensor) option"
  norm2 :: "tensor \<Rightarrow> tensor"
  mlp :: "tensor \<Rightarrow> tensor"
  ls2 :: "tensor \<Rightarrow> tensor"
  drop_path2 :: "(tensor \<Rightarrow> tensor) option"
  drop_path :: "(tensor \<Rightarrow> tensor) option"

text \<open>\<^verbatim>\<open>_drop_path1\<close> and \<^verbatim>\<open>_drop_path2\<close> (lines 81-85).\<close>

definition ToMeBlock_drop_path1 :: "block \<Rightarrow> tensor \<Rightarrow> error + tensor" where
  "ToMeBlock_drop_path1 self x =
     (case drop_path1 self of
        Some f \<Rightarrow> Inr (f x)
      | None \<Rightarrow> (case drop_path self of Some g \<Rightarrow> Inr (g x) | None \<Rightarrow> Inl AttributeError))"

definition ToMeBlock_drop_path2 :: "block \<Rightarrow> tensor \<Rightarrow> error + tensor" where
  "ToMeBlock_drop_path2 self x =
     (case drop_path2 self of
        Some f \<Rightarrow> Inr (f x)
      | None \<Rightarrow> (case drop_path self of Some g \<Rightarrow> Inr (g x) | None \<Rightarrow> Inl AttributeError))"

text \<open>
  Lines 89-92 of \<^verbatim>\<open>ToMeBlock.forward\<close>: attention on the normalised input, the assertion
  on the metric, the first residual. Nothing here writes to the dictionary.
\<close>

definition attend_residual :: "block \<Rightarrow> tome_info \<Rightarrow> tensor \<Rightarrow> error + (tensor \<times> pyval)" where
  "attend_residual self info x =
     (let attn_size = (if prop_attn info then tome_size info else None) in
      case attn self (norm1 self x) attn_size of
        Inl e \<Rightarrow> Inl e
      | Inr (x_attn, metric) \<Rightarrow>
          (case metric ''metric'' of
             None \<Rightarrow> Inl KeyError
           | Some m \<Rightarrow>
               if \<not> isinstance_float_Tensor m then Inl AssertionError
               else (case ToMeBlock_drop_path1 self (ls1 self x_attn) of
                       Inl e \<Rightarrow> Inl e
                     | Inr d \<Rightarrow>
                         (case tensor_add x d of
                            Inl e \<Rightarrow> Inl e
                          | Inr x1 \<Rightarrow> Inr (x1, m)))))"

text \<open>
  Lines 96-106: the branch \<^verbatim>\<open>r > 0\<close>. The source trace is written before the weighted
  merge runs, so an exception of \<^verbatim>\<open>merge_wavg\<close> leaves the new source behind.
\<close>

definition tome_merge :: "'m tome_lib \<Rightarrow> tome_info \<Rightarrow> pyval \<Rightarrow> int \<Rightarrow> tensor \<Rightarrow> result" where
  "tome_merge lib info m r x =
     (case bipartite_soft_matching lib m r (class_token info) (distill_token info) of
        Inl e \<Rightarrow> Inl (e, info)
      | Inr (merge, unmerge) \<Rightarrow>
          (case (if trace_source info
                 then (case merge_source lib merge x (tome_source info) of
                         Inl e \<Rightarrow> Inl (e, info)
                       | Inr s \<Rightarrow> Inr (info\<lparr>tome_source := Some s\<rparr>))
                 else Inr info) of
             Inl ei \<Rightarrow> Inl ei
           | Inr info1 \<Rightarrow>
               (case merge_wavg lib merge x (tome_size info1) of
                  Inl e \<Rightarrow> Inl (e, info1)
                | Inr (x', sz) \<Rightarrow> Inr (x', info1\<lparr>tome_size := Some sz\<rparr>))))"

text \<open>Line 109: the MLP and the second residual.\<close>

definition mlp_residual :: "block \<Rightarrow> tensor \<Rightarrow> error + tensor" where
  "mlp_residual self x =
     (case ToMeBlock_drop_path2 self (ls2 self (mlp self (norm2 self x))) of
        Inl e \<Rightarrow> Inl e
      | Inr d \<Rightarrow> tensor_add x d)"

text \<open>
  \<^verbatim>\<open>ToMeBlock.forward\<close> (lines 87-110). An exception is returned with the dictionary as
  it stands when the exception is raised.
\<close>

definition ToMeBlock_forward :: "'m tome_lib \<Rightarrow> block \<Rightarrow> tome_info \<Rightarrow> tensor \<Rightarrow> result" where
  "ToMeBlock_forward lib self info x =
     (case attend_residual self info x of
        Inl e \<Rightarrow> Inl (e, info)
      | Inr (x1, m) \<Rightarrow>
          (case pop0 (tome_r info) of
             Inl e \<Rightarrow> Inl (e, info)
           | Inr (r, rest) \<Rightarrow>
               (case (if r > 0 then tome_merge lib (info\<lparr>tome_r := rest\<rparr>) m r x1
                      else Inr (x1, info\<lparr>tome_r := rest\<rparr>)) of
                  Inl ei \<Rightarrow> Inl ei
                | Inr (x2, info2) \<Rightarrow>
                    (case mlp_residual self x2 of
                       Inl e \<Rightarrow> Inl (e, info2)
                     | Inr x3 \<Rightarrow> Inr (x3, info2)))))"

text \<open>
  The block stack \<^verbatim>\<open>self.blocks\<close> of the vision transformer calls its blocks in order on
  the one dictionary; the first exception ends the pass.
\<close>

fun blocks_forward :: "'m tome_lib \<Rightarrow> block list \<Rightarrow> tome_info \<Rightarrow> tensor \<Rightarrow> result" where
  "blocks_forward lib [] info x = Inr (x, info)"
| "blocks_forward lib (b # bs) info x =
     (case ToMeBlock_forward lib b info x of
        Inl ei \<Rightarrow> Inl ei
      | Inr (x', info') \<Rightarrow> blocks_forward lib bs info' x')"

section \<open>ToMeVisionTransformer\<close>

text \<open>
  The patched model: its blocks, its attribute \<^verbatim>\<open>r\<close>, and the parts of the inherited
  \<^verbatim>\<open>forward\<close> that run before and after the block stack (embedding, final norm, head),
  which are opaque.
\<close>

record ('i, 'o) vit =
  blocks :: "block list"
  vit_r :: r_value
  pre_blocks :: "'i \<Rightarrow> tensor"
  post_blocks :: "tensor \<Rightarrow> 'o"

text \<open>Lines 121-124: the prologue of \<^verbatim>\<open>ToMeVisionTransformer.forward\<close>.\<close>

definition prologue :: "'m tome_lib \<Rightarrow> ('i, 'o) vit \<Rightarrow> tome_info \<Rightarrow> error + tome_info" where
  "prologue lib self info =
     (case parse_r lib (length (blocks self)) (vit_r self) (total_merge info) of
        Inl e \<Rightarrow> Inl e
      | Inr sched \<Rightarrow>
          Inr (info\<lparr>tome_r := RList sched, tome_size := None, tome_source := None\<rparr>))"

text \<open>\<^verbatim>\<open>ToMeVisionTransformer.forward\<close> (lines 120-126).\<close>

definition ToMeVisionTransformer_forward ::
  "'m tome_lib \<Rightarrow> ('i, 'o) vit \<Rightarrow> tome_info \<Rightarrow> 'i \<Rightarrow> (error \<times> tome_info) + ('o \<times> tome_info)" where
  "ToMeVisionTransformer_forward lib self info x =
     (case prologue lib self info of
        Inl e \<Rightarrow> Inl (e, info)
      | Inr info1 \<Rightarrow>
          (case blocks_forward lib (blocks self) info1 (pre_blocks self x) of
             Inl ei \<Rightarrow> Inl ei
           | Inr (y, info2) \<Rightarrow> Inr (post_blocks self y, info2)))"

section \<open>ToMeAttention\<close>

type_synonym tensor4 = "real list list list list"

text \<open>
  The attention module: the linear layers and the dropouts are opaque functions on
  tensors. \<^verbatim>\<open>F_dropout\<close> is the dropout inside \<^verbatim>\<open>F.scaled_dot_product_attention\<close>, given
  its probability.
\<close>

record attention =
  num_heads :: nat
  qkv :: "tensor \<Rightarrow> tensor"
  scale :: real
  fused_attn :: bool
  training :: bool
  attn_drop_p :: real
  attn_drop :: "tensor4 \<Rightarrow> tensor4"
  F_dropout :: "real \<Rightarrow> tensor4 \<Rightarrow> tensor4"
  proj :: "tensor \<Rightarrow> tensor"
  proj_drop :: "tensor \<Rightarrow> tensor"

text \<open>
  \<^verbatim>\<open>self.qkv(x).reshape(B, N, 3, H, d).permute(2, 0, 3, 1, 4)[s]\<close>: of shape [B, H, N, d],
  for \<open>s\<close> = 0 (queries), 1 (keys), 2 (values).
\<close>

definition split_heads :: "nat \<Rightarrow> nat \<Rightarrow> nat \<Rightarrow> tensor \<Rightarrow> tensor4" where
  "split_heads s H d y =
     map (\<lambda>yb. map (\<lambda>h. map (\<lambda>t. take d (drop (s * H * d + h * d) t)) yb) [0..<H]) y"

definition dot :: "real list \<Rightarrow> real list \<Rightarrow> real" where
  "dot u v = sum_list (map2 (*) u v)"

text \<open>\<^verbatim>\<open>(q @ k.transpose(-2, -1)) * scale\<close>\<close>

definition qk_scores :: "real \<Rightarrow> tensor4 \<Rightarrow> tensor4 \<Rightarrow> tensor4" where
  "qk_scores sc q k =
     map2 (\<lambda>qb kb. map2 (\<lambda>qh kh. map (\<lambda>qi. map (\<lambda>kj. dot qi kj * sc) kh) qh) qb kb) q k"

text \<open>\<^verbatim>\<open>attn + size.log()[:, None, None, :, 0]\<close>: entry [b, h, i, j] gets log size[b, j, 0].\<close>

definition add_log_size :: "tensor4 \<Rightarrow> tensor \<Rightarrow> tensor4" where
  "add_log_size a sz =
     map2 (\<lambda>ab sb. map (map (\<lambda>row. map2 (\<lambda>s t. s + ln (hd t)) row sb)) ab) a sz"

text \<open>The scores before the softmax, in both branches.\<close>

definition attn_logits :: "real \<Rightarrow> tensor4 \<Rightarrow> tensor4 \<Rightarrow> tensor option \<Rightarrow> tensor4" where
  "attn_logits sc q k size_opt =
     (case size_opt of
        None \<Rightarrow> qk_scores sc q k
      | Some sz \<Rightarrow> add_log_size (qk_scores sc q k) sz)"

definition softmax :: "real list \<Rightarrow> real list" where
  "softmax row = map (\<lambda>s. exp s / sum_list (map exp row)) row"

text \<open>\<^verbatim>\<open>attn @ v\<close>\<close>

definition attn_matmul :: "nat \<Rightarrow> tensor4 \<Rightarrow> tensor4 \<Rightarrow> tensor4" where
  "attn_matmul d a v =
     map2 (\<lambda>ab vb. map2 (\<lambda>ah vh.
        map (\<lambda>row. map (\<lambda>c. sum_list (map2 (\<lambda>w vj. w * (vj ! c)) row vh)) [0..<d]) ah) ab vb) a v"

text \<open>\<^verbatim>\<open>x.transpose(1, 2).reshape(B, N, C)\<close>\<close>

definition merge_heads :: "nat \<Rightarrow> tensor4 \<Rightarrow> tensor" where
  "merge_heads N o4 = map (\<lambda>ob. map (\<lambda>n. concat (map (\<lambda>oh. oh ! n) ob)) [0..<N]) o4"

text \<open>\<^verbatim>\<open>k.mean(1)\<close>: the mean over the heads, of shape [B, N, d].\<close>

definition mean_heads :: "nat \<Rightarrow> nat \<Rightarrow> nat \<Rightarrow> tensor4 \<Rightarrow> tensor" where
  "mean_heads H N d k =
     map (\<lambda>kb. map (\<lambda>n. map (\<lambda>c. (\<Sum>h\<leftarrow>[0..<H]. kb ! h ! n ! c) / real H) [0..<d]) [0..<N]) k"

text \<open>The shape checks torch makes on the size: one entry per batch element and token.\<close>

definition size_fits :: "tensor \<Rightarrow> tensor option \<Rightarrow> bool" where
  "size_fits x size_opt =
     (case size_opt of
        None \<Rightarrow> True
      | Some sz \<Rightarrow> map length sz = map length x \<and> list_all (list_all (\<lambda>t. t \<noteq> [])) sz)"

text \<open>\<^verbatim>\<open>B, N, C = x.shape\<close>: the tokens per batch element and the channels per token.\<close>

definition dim_N :: "tensor \<Rightarrow> nat" where
  "dim_N x = (case x of [] \<Rightarrow> 0 | xb # _ \<Rightarrow> length xb)"

definition dim_C :: "tensor \<Rightarrow> nat" where
  "dim_C x = (case concat x of [] \<Rightarrow> 0 | t # _ \<Rightarrow> length t)"

text \<open>
  \<^verbatim>\<open>ToMeAttention.forward\<close> (lines 38-71). In the fused branch
  \<^verbatim>\<open>F.scaled_dot_product_attention\<close> is the softmax of the scores scaled by
  \<open>1 / sqrt d\<close> plus the mask, its dropout, and the product with the values, as torch
  documents it. A reshape that does not fit is a RuntimeError.
\<close>

definition ToMeAttention_forward ::
  "attention \<Rightarrow> tensor \<Rightarrow> tensor option \<Rightarrow> error + (tensor \<times> (string \<Rightarrow> pyval option))" where
  "ToMeAttention_forward self x size_opt =
     (let N = dim_N x;
          C = dim_C x;
          H = num_heads self;
          d = C div H;
          y = qkv self x
      in if shape y \<noteq> map (map (\<lambda>t. 3 * H * d)) x \<or> H * d \<noteq> C then Inl RuntimeError
         else if \<not> size_fits x size_opt then Inl RuntimeError
         else
           let q = split_heads 0 H d y;
               k = split_heads 1 H d y;
               v = split_heads 2 H d y;
               o4 = (if fused_attn self
                     then attn_matmul d
                            (F_dropout self (if training self then attn_drop_p self else 0)
                               (map (map (map softmax)) (attn_logits (1 / sqrt (real d)) q k size_opt))) v
                     else attn_matmul d
                            (attn_drop self
                               (map (map (map softmax)) (attn_logits (scale self) q k size_opt))) v);
               x1 = merge_heads N o4;
               x2 = proj self x1;
               x3 = proj_drop self x2;
               metric = (\<lambda>key. if key = ''metric'' then Some (PyTensor (mean_heads H N d k)) else None)
           in Inr (x3, metric))"

text \<open>
  The scores before the softmax as the specification states them (section 4.4, step 1),
  entry by entry: the scaled product of query \<open>i\<close> and key \<open>j\<close> of batch element \<open>b\<close> and
  head \<open>h\<close>, plus, when a size is given, the logarithm of the size of key token \<open>j\<close>.
  This definition follows the words of the specification; it is compared below with
  \<open>attn_logits\<close>, the scores that \<^verbatim>\<open>ToMeAttention.forward\<close> computes.
\<close>

definition biased_scores :: "real \<Rightarrow> tensor4 \<Rightarrow> tensor4 \<Rightarrow> tensor option \<Rightarrow> tensor4" where
  "biased_scores sc q k size_opt =
     map (\<lambda>b. map (\<lambda>h. map (\<lambda>i. map (\<lambda>j.
            dot (q ! b ! h ! i) (k ! b ! h ! j) * sc
              + (case size_opt of None \<Rightarrow> 0 | Some sz \<Rightarrow> ln (sz ! b ! j ! 0)))
          [0..<length (k ! b ! h)]) [0..<length (q ! b ! h)]) [0..<length (q ! b)]) [0..<length q]"

section \<open>The matcher and the applicator, from the specification\<close>

text \<open>
  Modelled from the spec: \<^verbatim>\<open>bipartite_soft_matching\<close>, \<^verbatim>\<open>merge_wavg\<close> and \<^verbatim>\<open>merge_source\<close>
  of \<^verbatim>\<open>opentome.tome.tome\<close> are not part of the sources. The definitions of this section
  follow sections 4.2 (Bipartite Matcher) and 4.3 (Merge Applicator) of the specification.
  The similarity of two metric vectors (cosine or dot product) is a parameter \<open>sim\<close>.
\<close>

text \<open>
  Modelled from the spec: the merge mapping of one batch element. \<open>Identity\<close> is the
  mapping without merges; \<open>Merge n p src dst\<close> was computed for \<open>n\<close> tokens of which the
  first \<open>p\<close> are protected, and merges the tokens \<open>src\<close> of set A into the tokens \<open>dst\<close>
  of set B (indices into A and into B).
\<close>

datatype merge_map = Identity | Merge nat nat "nat list" "nat list"

text \<open>Modelled from the spec: the even and the odd positions of the unprotected tokens.\<close>

fun evens :: "'a list \<Rightarrow> 'a list" where
  "evens [] = []"
| "evens [x] = [x]"
| "evens (x # y # zs) = x # evens zs"

fun odds :: "'a list \<Rightarrow> 'a list" where
  "odds [] = []"
| "odds [x] = []"
| "odds (x # y # zs) = y # odds zs"

text \<open>
  Modelled from the spec: the best-matching B token of an A token and the score of that
  edge; among equal scores the first B token.
\<close>

fun best_edge :: "(token \<Rightarrow> token \<Rightarrow> real) \<Rightarrow> token \<Rightarrow> token list \<Rightarrow> nat \<times> real" where
  "best_edge sim a [] = (0, 0)"
| "best_edge sim a [b] = (0, sim a b)"
| "best_edge sim a (b # bs) =
     (let (j, s) = best_edge sim a bs in if s \<le> sim a b then (0, sim a b) else (Suc j, s))"

text \<open>
  Modelled from the spec: the matching of one batch element. The A tokens are ranked by
  their best score, descending, ties in index order (the sort is stable); the top
  \<open>min(r, |A|, |B|)\<close> are merged; \<open>r \<le> 0\<close> or an empty side gives the identity mapping.
\<close>

definition match_seq :: "(token \<Rightarrow> token \<Rightarrow> real) \<Rightarrow> int \<Rightarrow> bool \<Rightarrow> bool \<Rightarrow> seq \<Rightarrow> merge_map" where
  "match_seq sim r protect_class protect_distill metrics =
     (let p = (if protect_class then 1 else 0) + (if protect_distill then 1 else 0);
          u = drop p metrics;
          A = evens u;
          B = odds u;
          r' = (if r \<le> 0 then 0 else min (nat r) (min (length A) (length B)))
      in if r' = 0 then Identity
         else
           let edges = map (\<lambda>a. best_edge sim a B) A;
               ranked = sort_key (\<lambda>i. - snd (edges ! i)) [0..<length A];
               src = take r' ranked
           in Merge (length metrics) p src (map (\<lambda>i. fst (edges ! i)) src))"

text \<open>Modelled from the spec: each merged A token is folded into its destination.\<close>

fun scatter :: "('a \<Rightarrow> 'a \<Rightarrow> 'a) \<Rightarrow> (nat \<times> 'a) list \<Rightarrow> 'a list \<Rightarrow> 'a list" where
  "scatter comb [] bs = bs"
| "scatter comb ((j, a) # rest) bs = scatter comb rest (bs[j := comb (bs ! j) a])"

text \<open>
  Modelled from the spec: the mapping applied to the values of one batch element. The
  result is the protected tokens, the unmerged A tokens in their order, then all B tokens
  in their order. A sequence of another length than the mapping's is an error.
\<close>

definition merge_seq :: "('a \<Rightarrow> 'a \<Rightarrow> 'a) \<Rightarrow> merge_map \<Rightarrow> 'a list \<Rightarrow> error + 'a list" where
  "merge_seq comb mp xs =
     (case mp of
        Identity \<Rightarrow> Inr xs
      | Merge n p src dst \<Rightarrow>
          if length xs \<noteq> n then Inl RuntimeError
          else
            let u = drop p xs;
                A = evens u;
                B = odds u;
                unm = map ((!) A) (filter (\<lambda>i. i \<notin> set src) [0..<length A])
            in Inr (take p xs @ unm @ scatter comb (zip dst (map ((!) A) src)) B))"

text \<open>The results of the batch elements, or the first error among them.\<close>

fun sequence :: "(error + 'a) list \<Rightarrow> error + 'a list" where
  "sequence [] = Inr []"
| "sequence (Inl e # rs) = Inl e"
| "sequence (Inr v # rs) = (case sequence rs of Inl e \<Rightarrow> Inl e | Inr vs \<Rightarrow> Inr (v # vs))"

text \<open>Modelled from the spec: the mappings of a batch applied to a tensor.\<close>

definition merge_batch :: "(token \<Rightarrow> token \<Rightarrow> token) \<Rightarrow> merge_map list \<Rightarrow> tensor \<Rightarrow> error + tensor" where
  "merge_batch comb merge x =
     (if length merge \<noteq> length x then Inl RuntimeError
      else sequence (map2 (merge_seq comb) merge x))"

text \<open>
  Modelled from the spec: the Matcher on the metric of a block. A metric that is not a
  tensor has no tokens to match.
\<close>

definition spec_bipartite_soft_matching ::
  "(token \<Rightarrow> token \<Rightarrow> real) \<Rightarrow> pyval \<Rightarrow> int \<Rightarrow> bool \<Rightarrow> bool \<Rightarrow> error + (merge_map list \<times> merge_map list)" where
  "spec_bipartite_soft_matching sim metric r protect_class protect_distill =
     (case metric of
        PyTensor t \<Rightarrow>
          (let m = map (match_seq sim r protect_class protect_distill) t in Inr (m, m))
      | _ \<Rightarrow> Inl AttributeError)"

definition ones_like :: "tensor \<Rightarrow> tensor" where
  "ones_like x = map (map (\<lambda>t. [1])) x"

text \<open>
  Modelled from the spec: the Applicator on tokens and sizes. A size not yet initialised
  is 1 for every token. The merged token is the size-weighted average of what it
  subsumes, its size the sum of the merged sizes.
\<close>

definition spec_merge_wavg :: "merge_map list \<Rightarrow> tensor \<Rightarrow> tensor option \<Rightarrow> error + (tensor \<times> tensor)" where
  "spec_merge_wavg merge x size_opt =
     (let sz = (case size_opt of None \<Rightarrow> ones_like x | Some s \<Rightarrow> s) in
      if shape sz \<noteq> shape (ones_like x) then Inl RuntimeError
      else
        case merge_batch (map2 (+)) merge (map2 (map2 (\<lambda>t s. map (\<lambda>v. v * hd s) t)) x sz) of
          Inl e \<Rightarrow> Inl e
        | Inr xs \<Rightarrow>
            (case merge_batch (map2 (+)) merge sz of
               Inl e \<Rightarrow> Inl e
             | Inr sz' \<Rightarrow> Inr (map2 (map2 (\<lambda>t s. map (\<lambda>v. v / hd s) t)) xs sz', sz')))"

text \<open>
  Modelled from the spec: the source trace. A trace not yet initialised maps every token
  to itself; merged tokens take the union of their indicators.
\<close>

definition eye :: "nat \<Rightarrow> seq" where
  "eye n = map (\<lambda>i. map (\<lambda>j. if i = j then 1 else 0) [0..<n]) [0..<n]"

definition spec_merge_source :: "merge_map list \<Rightarrow> tensor \<Rightarrow> tensor option \<Rightarrow> error + tensor" where
  "spec_merge_source merge x source_opt =
     (let src = (case source_opt of None \<Rightarrow> map (\<lambda>xb. eye (length xb)) x | Some s \<Rightarrow> s)
      in merge_batch (map2 max) merge src)"

text \<open>
  A mapping fits a sequence of \<open>n\<close> tokens when it was computed for \<open>n\<close> tokens, merges
  each A token at most once, and names only tokens of A and of B that exist.
\<close>

fun map_fits :: "merge_map \<Rightarrow> nat \<Rightarrow> bool" where
  "map_fits Identity n = True"
| "map_fits (Merge n' p src dst) n =
     (n' = n \<and> distinct src \<and> set src \<subseteq> {0..<(n - p + 1) div 2}
      \<and> length dst = length src \<and> list_all (\<lambda>j. j < (n - p) div 2) dst)"

text \<open>
  The size the blocks work with: all ones while the dictionary holds none (the
  Applicator initialises it so on first use).
\<close>

definition current_size :: "tome_info \<Rightarrow> tensor \<Rightarrow> tensor" where
  "current_size info x = (case tome_size info of None \<Rightarrow> ones_like x | Some s \<Rightarrow> s)"

text \<open>An entry of the size tensor: one channel, holding at least 1.\<close>

definition size_token :: "token \<Rightarrow> bool" where
  "size_token t = (length t = 1 \<and> 1 \<le> hd t)"

text \<open>
  What the blocks keep true of the size, for the tokens \<open>x0\<close> the block stack started
  from and the tokens \<open>x\<close> it has reached: one entry per current token, every entry at
  least 1, and per batch element the entries sum to the number of tokens of \<open>x0\<close>.
\<close>

definition size_inv :: "tensor \<Rightarrow> tensor \<Rightarrow> tome_info \<Rightarrow> bool" where
  "size_inv x0 x info =
     (map length (current_size info x) = map length x
      \<and> list_all (list_all size_token) (current_size info x)
      \<and> map (\<lambda>sb. sum_list (concat sb)) (current_size info x)
          = map (\<lambda>xb. real (length xb)) x0)"

text \<open>
  The library with the matcher and the applicator of the specification; the planner
  \<^verbatim>\<open>parse_r\<close> stays a parameter.
\<close>

definition spec_lib ::
  "(token \<Rightarrow> token \<Rightarrow> real) \<Rightarrow> (nat \<Rightarrow> r_value \<Rightarrow> int option \<Rightarrow> error + int list) \<Rightarrow> (merge_map list) tome_lib" where
  "spec_lib sim planner =
     \<lparr>bipartite_soft_matching = spec_bipartite_soft_matching sim,
      merge_source = spec_merge_source,
      merge_wavg = spec_merge_wavg,
      parse_r = planner\<rparr>"

section \<open>The pass with merging disabled\<close>

text \<open>
  Modelled from the spec: the block and the model without token merging (the classes
  \<^verbatim>\<open>Block\<close> and \<^verbatim>\<open>VisionTransformer\<close> that the patch replaces) are not part of the sources.
  Following section 4.4 of the specification without its steps 3 to 5, and the note of
  the source that \<^verbatim>\<open>ToMeBlock.forward\<close> is a copy with modifications: attention without
  a size, whose dictionary is not looked at, the first residual, the MLP and the second
  residual; no shared dictionary is read or written.
\<close>

definition Block_forward :: "block \<Rightarrow> tensor \<Rightarrow> error + tensor" where
  "Block_forward self x =
     (case attn self (norm1 self x) None of
        Inl e \<Rightarrow> Inl e
      | Inr (x_attn, metric) \<Rightarrow>
          (case ToMeBlock_drop_path1 self (ls1 self x_attn) of
             Inl e \<Rightarrow> Inl e
           | Inr d \<Rightarrow>
               (case tensor_add x d of
                  Inl e \<Rightarrow> Inl e
                | Inr x1 \<Rightarrow> mlp_residual self x1)))"

text \<open>Modelled from the spec: the block stack of the model without token merging.\<close>

fun plain_blocks_forward :: "block list \<Rightarrow> tensor \<Rightarrow> error + tensor" where
  "plain_blocks_forward [] x = Inr x"
| "plain_blocks_forward (b # bs) x =
     (case Block_forward b x of Inl e \<Rightarrow> Inl e | Inr x' \<Rightarrow> plain_blocks_forward bs x')"

text \<open>Modelled from the spec: the forward pass of the model without token merging.\<close>

definition VisionTransformer_forward :: "('i, 'o) vit \<Rightarrow> 'i \<Rightarrow> error + 'o" where
  "VisionTransformer_forward self x =
     (case plain_blocks_forward (blocks self) (pre_blocks self x) of
        Inl e \<Rightarrow> Inl e
      | Inr y \<Rightarrow> Inr (post_blocks self y))"

section \<open>Objects, references and the patch\<close>

text \<open>
  The dictionary \<^verbatim>\<open>_tome_info\<close> is an object: the model and its blocks hold references to
  it. The store maps addresses to dictionaries; \<^verbatim>\<open>next_addr\<close> is the next free address.
\<close>

type_synonym addr = nat

record heap =
  next_addr :: addr
  dicts :: "addr \<Rightarrow> tome_info option"

text \<open>Writing to the dictionary at an address.\<close>

definition store_dict :: "heap \<Rightarrow> addr \<Rightarrow> tome_info \<Rightarrow> heap" where
  "store_dict h a info = h\<lparr>dicts := (dicts h)(a \<mapsto> info)\<rparr>"

text \<open>
  The modules \<^verbatim>\<open>model.modules()\<close> yields after the model itself. A transformer block is
  an instance of \<^verbatim>\<open>Block\<close> or \<^verbatim>\<open>TimmBlock\<close> (\<^verbatim>\<open>ToMeBlock\<close> is a subclass of \<^verbatim>\<open>Block\<close>): it
  has its class, its sublayers and the attribute \<^verbatim>\<open>_tome_info\<close>, a reference or absent. An
  attention module is an instance of \<^verbatim>\<open>Attention\<close> or \<^verbatim>\<open>TimmAttention\<close> (\<^verbatim>\<open>ToMeAttention\<close>
  is a subclass of \<^verbatim>\<open>Attention\<close>). Every other module is an instance of neither.
\<close>

datatype block_class = Block | TimmBlock | ToMeBlock

datatype attention_class = Attention | TimmAttention | ToMeAttention

datatype module =
    BlockModule block_class block "addr option"
  | AttentionModule attention_class
  | OtherModule

text \<open>
  The model object: whether its class is the \<^verbatim>\<open>ToMeVisionTransformer\<close> made from its
  original class, its attributes \<^verbatim>\<open>r\<close> and \<^verbatim>\<open>_tome_info\<close> (absent before the patch), its
  modules, whether \<^verbatim>\<open>cls_token\<close> and \<^verbatim>\<open>dist_token\<close> are present and not None, and the
  opaque parts of the inherited forward before and after the block stack.
\<close>

record ('i, 'o) model =
  model_is_tome :: bool
  model_r :: "r_value option"
  model_tome_info :: "addr option"
  model_modules :: "module list"
  cls_token :: bool
  dist_token :: bool
  model_pre :: "'i \<Rightarrow> tensor"
  model_post :: "tensor \<Rightarrow> 'o"

text \<open>Lines 168-173: the loop body of \<^verbatim>\<open>tome_apply_patch\<close> for the dictionary at \<open>a\<close>.\<close>

fun patch_module :: "addr \<Rightarrow> module \<Rightarrow> module" where
  "patch_module a (BlockModule c b ref) = BlockModule ToMeBlock b (Some a)"
| "patch_module a (AttentionModule c) = AttentionModule ToMeAttention"
| "patch_module a OtherModule = OtherModule"

text \<open>
  \<^verbatim>\<open>tome_apply_patch\<close> (lines 137-173): one new dictionary is allocated, the model and
  every block get a reference to it.
\<close>

definition tome_apply_patch ::
  "('i, 'o) model \<Rightarrow> heap \<Rightarrow> bool \<Rightarrow> bool \<Rightarrow> ('i, 'o) model \<times> heap" where
  "tome_apply_patch model h trace_source_arg prop_attn_arg =
     (let a = next_addr h;
          info = \<lparr>tome_r = RInt 0, tome_size = None, tome_source = None, total_merge = None,
                  trace_source = trace_source_arg, prop_attn = prop_attn_arg,
                  class_token = cls_token model, distill_token = dist_token model\<rparr>;
          info' = (if dist_token model then info\<lparr>distill_token := True\<rparr> else info);
          h' = \<lparr>next_addr = Suc a, dicts = (dicts h)(a \<mapsto> info')\<rparr>
      in (model\<lparr>model_is_tome := True, model_r := Some (RInt 0), model_tome_info := Some a,
                model_modules := map (patch_module a) (model_modules model)\<rparr>, h'))"

text \<open>\<^verbatim>\<open>model.blocks\<close>: the transformer blocks among the modules, in order.\<close>

fun model_blocks :: "module list \<Rightarrow> (block_class \<times> block \<times> addr option) list" where
  "model_blocks [] = []"
| "model_blocks (BlockModule c b ref # ms) = (c, b, ref) # model_blocks ms"
| "model_blocks (m # ms) = model_blocks ms"

text \<open>
  \<^verbatim>\<open>ToMeBlock.forward\<close> on the store: \<^verbatim>\<open>self._tome_info\<close> is read through the block's own
  reference, and what the call writes is written to that dictionary.
\<close>

definition ToMeBlock_forward_at ::
  "'m tome_lib \<Rightarrow> block \<Rightarrow> addr option \<Rightarrow> heap \<Rightarrow> tensor \<Rightarrow> (error + tensor) \<times> heap" where
  "ToMeBlock_forward_at lib self ref h x =
     (case ref of
        None \<Rightarrow> (Inl AttributeError, h)
      | Some a \<Rightarrow>
          (case dicts h a of
             None \<Rightarrow> (Inl AttributeError, h)
           | Some info \<Rightarrow>
               (case ToMeBlock_forward lib self info x of
                  Inl (e, info') \<Rightarrow> (Inl e, store_dict h a info')
                | Inr (y, info') \<Rightarrow> (Inr y, store_dict h a info'))))"

text \<open>A block is called through its class: a block that was not patched does not merge.\<close>

fun block_call ::
  "'m tome_lib \<Rightarrow> block_class \<times> block \<times> addr option \<Rightarrow> heap \<Rightarrow> tensor \<Rightarrow> (error + tensor) \<times> heap" where
  "block_call lib (ToMeBlock, b, ref) h x = ToMeBlock_forward_at lib b ref h x"
| "block_call lib (c, b, ref) h x = (Block_forward b x, h)"

fun blocks_forward_at ::
  "'m tome_lib \<Rightarrow> (block_class \<times> block \<times> addr option) list \<Rightarrow> heap \<Rightarrow> tensor
     \<Rightarrow> (error + tensor) \<times> heap" where
  "blocks_forward_at lib [] h x = (Inr x, h)"
| "blocks_forward_at lib (m # ms) h x =
     (case block_call lib m h x of
        (Inl e, h') \<Rightarrow> (Inl e, h')
      | (Inr x', h') \<Rightarrow> blocks_forward_at lib ms h' x')"

text \<open>
  Lines 121-124 on the store: the prologue reads and writes the dictionary the model's
  attribute \<^verbatim>\<open>_tome_info\<close> refers to.
\<close>

definition prologue_at :: "'m tome_lib \<Rightarrow> ('i, 'o) model \<Rightarrow> heap \<Rightarrow> error + heap" where
  "prologue_at lib self h =
     (case model_tome_info self of
        None \<Rightarrow> Inl AttributeError
      | Some a \<Rightarrow>
          (case dicts h a of
             None \<Rightarrow> Inl AttributeError
           | Some info \<Rightarrow>
               (case model_r self of
                  None \<Rightarrow> Inl AttributeError
                | Some r \<Rightarrow>
                    (case parse_r lib (length (model_blocks (model_modules self))) r
                            (total_merge info) of
                       Inl e \<Rightarrow> Inl e
                     | Inr sched \<Rightarrow>
                         Inr (store_dict h a
                                (info\<lparr>tome_r := RList sched, tome_size := None,
                                      tome_source := None\<rparr>))))))"

text \<open>\<^verbatim>\<open>ToMeVisionTransformer.forward\<close> (lines 120-126) on the store.\<close>

definition ToMeVisionTransformer_forward_at ::
  "'m tome_lib \<Rightarrow> ('i, 'o) model \<Rightarrow> heap \<Rightarrow> 'i \<Rightarrow> (error + 'o) \<times> heap" where
  "ToMeVisionTransformer_forward_at lib self h x =
     (case prologue_at lib self h of
        Inl e \<Rightarrow> (Inl e, h)
      | Inr h1 \<Rightarrow>
          (case blocks_forward_at lib (model_blocks (model_modules self)) h1 (model_pre self x) of
             (Inl e, h2) \<Rightarrow> (Inl e, h2)
           | (Inr y, h2) \<Rightarrow> (Inr (model_post self y), h2)))"

text \<open>
  Forward passes of one model object that overlap in time, interleaved at the boundaries
  of blocks: \<open>Enter p x\<close> starts pass \<open>p\<close> on input \<open>x\<close> (its prologue runs), \<open>Step p\<close>
  lets pass \<open>p\<close> run its next block, or return when none is left. Each pass has its own
  tokens and its own position in the block stack; the store is the one they share.
\<close>

datatype 'i event = Enter nat 'i | Step nat

datatype 'o pass =
    Running "(block_class \<times> block \<times> addr option) list" tensor
  | Returned 'o
  | Raised error

text \<open>Recording the state of a pass.\<close>

definition put_pass :: "(nat \<Rightarrow> 'o pass option) \<Rightarrow> nat \<Rightarrow> 'o pass \<Rightarrow> nat \<Rightarrow> 'o pass option" where
  "put_pass passes p v = passes(p \<mapsto> v)"

fun run_event ::
  "'m tome_lib \<Rightarrow> ('i, 'o) model \<Rightarrow> 'i event \<Rightarrow> heap \<times> (nat \<Rightarrow> 'o pass option)
     \<Rightarrow> heap \<times> (nat \<Rightarrow> 'o pass option)" where
  "run_event lib self (Enter p x) (h, passes) =
     (case prologue_at lib self h of
        Inl e \<Rightarrow> (h, put_pass passes p (Raised e))
      | Inr h1 \<Rightarrow>
          (h1, put_pass passes p
                 (Running (model_blocks (model_modules self)) (model_pre self x))))"
| "run_event lib self (Step p) (h, passes) =
     (case passes p of
        Some (Running [] y) \<Rightarrow> (h, put_pass passes p (Returned (model_post self y)))
      | Some (Running (m # ms) y) \<Rightarrow>
          (case block_call lib m h y of
             (Inl e, h') \<Rightarrow> (h', put_pass passes p (Raised e))
           | (Inr y', h') \<Rightarrow> (h', put_pass passes p (Running ms y')))
      | _ \<Rightarrow> (h, passes))"

fun run_events ::
  "'m tome_lib \<Rightarrow> ('i, 'o) model \<Rightarrow> 'i event list \<Rightarrow> heap \<times> (nat \<Rightarrow> 'o pass option)
     \<Rightarrow> heap \<times> (nat \<Rightarrow> 'o pass option)" where
  "run_events lib self [] s = s"
| "run_events lib self (ev # evs) s = run_events lib self evs (run_event lib self ev s)"

text \<open>
  The model object seen by the state-passing forward: its blocks' sublayers, its \<^verbatim>\<open>r\<close> and
  the opaque parts.
\<close>

definition vit_of :: "('i, 'o) model \<Rightarrow> r_value \<Rightarrow> ('i, 'o) vit" where
  "vit_of self r =
     \<lparr>blocks = map (\<lambda>m. fst (snd m)) (model_blocks (model_modules self)), vit_r = r,
      pre_blocks = model_pre self, post_blocks = model_post self\<rparr>"

section \<open>The throughput benchmark\<close>

text \<open>
  A cell of a result row holds a number or the sentinel \<^verbatim>\<open>np.nan\<close>; the columns \<^verbatim>\<open>h\<close> and
  \<^verbatim>\<open>use_naive_local\<close> hold what the caller passed (an integer or None, a boolean) or
  the sentinel.
\<close>

datatype fnum = Num real | NaN

datatype cell = CInt int | CBool bool | CNone | CNaN

record run_args =
  model_name :: string
  batch_size :: int
  seq_len :: int
  algorithm :: string
  total_merge_num :: int
  warmup_iters :: int
  benchmark_iters :: int
  inflect :: real
  h_arg :: "int option"
  use_naive_local :: bool
  verbose :: bool

record row =
  row_model_name :: string
  row_algorithm :: string
  row_batch_size :: int
  row_seq_len :: int
  row_target_total_merge :: int
  row_h :: cell
  row_use_naive_local :: cell
  latency_ms :: fnum
  throughput_samples_s :: fnum
  peak_mem_mb :: fnum
  status :: string

record ThroughputBenchmark =
  device :: string
  results :: "row list"

text \<open>The keys of \<^verbatim>\<open>ALGO_MAP\<close> (lines 21-27).\<close>

definition ALGO_MAP_keys :: "string list" where
  "ALGO_MAP_keys = [''none'', ''tome'', ''dtem'', ''pitome'', ''diffrate'']"

text \<open>
  \<^verbatim>\<open>except Exception\<close>: every exception class of the model derives from \<^verbatim>\<open>Exception\<close>
  but \<^verbatim>\<open>KeyboardInterrupt\<close> and \<^verbatim>\<open>SystemExit\<close>.
\<close>

fun isinstance_Exception :: "error \<Rightarrow> bool" where
  "isinstance_Exception KeyboardInterrupt = False"
| "isinstance_Exception SystemExit = False"
| "isinstance_Exception e = True"

text \<open>Lines 162-169: the row appended for a call.\<close>

definition result_row :: "run_args \<Rightarrow> fnum \<Rightarrow> fnum \<Rightarrow> fnum \<Rightarrow> string \<Rightarrow> row" where
  "result_row a lat thr mem st =
     \<lparr>row_model_name = model_name a, row_algorithm = algorithm a,
      row_batch_size = batch_size a, row_seq_len = seq_len a,
      row_target_total_merge = total_merge_num a,
      row_h = (if algorithm a = ''tome''
               then (case h_arg a of None \<Rightarrow> CNone | Some k \<Rightarrow> CInt k) else CNaN),
      row_use_naive_local = (if algorithm a = ''tome'' \<and> h_arg a \<noteq> None
                             then CBool (use_naive_local a) else CNaN),
      latency_ms = lat, throughput_samples_s = thr, peak_mem_mb = mem, status = st\<rparr>"

text \<open>
  \<^verbatim>\<open>ThroughputBenchmark.run\<close> (lines 39-169). What lies outside the program is a
  parameter: \<open>cuda\<close> is the outcome of the two CUDA calls before the \<^verbatim>\<open>try\<close> (an exception
  or nothing), \<open>timed\<close> the outcome of lines 59-151 inside the \<^verbatim>\<open>try\<close>: an exception, or
  the mean time of the measurement with the peak of allocated bytes. Lines 152-155
  compute the metrics; the division by a mean of zero raises inside the \<^verbatim>\<open>try\<close>. The
  result is the benchmark object after the call, or the exception that leaves the call.
\<close>

definition ThroughputBenchmark_run ::
  "(run_args \<Rightarrow> error + (real \<times> real)) \<Rightarrow> (run_args \<Rightarrow> error option)
     \<Rightarrow> ThroughputBenchmark \<Rightarrow> run_args \<Rightarrow> error + ThroughputBenchmark" where
  "ThroughputBenchmark_run timed cuda self a =
     (if algorithm a \<notin> set ALGO_MAP_keys then Inr self
      else
        case cuda a of
          Some e \<Rightarrow> Inl e
        | None \<Rightarrow>
            (case (case (case timed a of
                           Inl e \<Rightarrow> Inl e
                         | Inr (mean, peak_bytes) \<Rightarrow>
                             if mean = 0 then Inl ZeroDivisionError
                             else Inr (Num (mean * 1000), Num (real_of_int (batch_size a) / mean),
                                       Num (peak_bytes / 1024 ^ 2), ''success'')) of
                     Inl e \<Rightarrow> if isinstance_Exception e then Inr (NaN, NaN, NaN, ''failed'')
                              else Inl e
                   | Inr m \<Rightarrow> Inr m) of
               Inl e \<Rightarrow> Inl e
             | Inr (lat, thr, mem, st) \<Rightarrow>
                 Inr (self\<lparr>results := results self @ [result_row a lat thr mem st]\<rparr>)))"

text \<open>
  Modelled from the spec: the driver of a sweep is not part of the sources. It calls
  \<^verbatim>\<open>run\<close> for one configuration after the other on the same benchmark object; an
  exception that leaves a call ends the sweep.
\<close>

fun sweep ::
  "(run_args \<Rightarrow> error + (real \<times> real)) \<Rightarrow> (run_args \<Rightarrow> error option)
     \<Rightarrow> ThroughputBenchmark \<Rightarrow> run_args list \<Rightarrow> error + ThroughputBenchmark" where
  "sweep timed cuda self [] = Inr self"
| "sweep timed cuda self (a # as) =
     (case ThroughputBenchmark_run timed cuda self a of
        Inl e \<Rightarrow> Inl e
      | Inr self' \<Rightarrow> sweep timed cuda self' as)"

section \<open>Reading a result\<close>

text \<open>The dictionary a call leaves behind, whether it returned or raised.\<close>

definition final_info :: "(error \<times> tome_info) + ('a \<times> tome_info) \<Rightarrow> tome_info" where
  "final_info res = (case res of Inl (e, info) \<Rightarrow> info | Inr (y, info) \<Rightarrow> info)"

text \<open>What a call returned or raised, without the dictionary.\<close>

definition outcome :: "(error \<times> tome_info) + ('a \<times> tome_info) \<Rightarrow> error + 'a" where
  "outcome res = (case res of Inl (e, info) \<Rightarrow> Inl e | Inr (y, info) \<Rightarrow> Inr y)"

text \<open>
  The configuration entries of the dictionary: those no forward pass writes.
\<close>

definition config :: "tome_info \<Rightarrow> int option \<times> bool \<times> bool \<times> bool \<times> bool" where
  "config info =
     (total_merge info, trace_source info, prop_attn info, class_token info, distill_token info)"

section \<open>Example objects\<close>

text \<open>
  A one-head attention whose linear layers are the identity on each of query, key and
  value, a block around it with identity sublayers, a block whose attention module
  stores no tensor under "metric", and a planner that repeats an integer \<^verbatim>\<open>r\<close> for
  every layer. They are the concrete inputs of the examples below.
\<close>

definition example_attention :: attention where
  "example_attention =
     \<lparr>num_heads = 1, qkv = map (map (\<lambda>t. t @ t @ t)), scale = 1, fused_attn = False,
      training = False, attn_drop_p = 0, attn_drop = (\<lambda>a. a), F_dropout = (\<lambda>p a. a),
      proj = (\<lambda>y. y), proj_drop = (\<lambda>y. y)\<rparr>"

definition example_block :: block where
  "example_block =
     \<lparr>norm1 = (\<lambda>y. y), attn = ToMeAttention_forward example_attention, ls1 = (\<lambda>y. y),
      drop_path1 = Some (\<lambda>y. y), norm2 = (\<lambda>y. y), mlp = (\<lambda>y. y), ls2 = (\<lambda>y. y),
      drop_path2 = Some (\<lambda>y. y), drop_path = None\<rparr>"

definition unwired_block :: block where
  "unwired_block =
     example_block\<lparr>attn := (\<lambda>y s. Inr (y, (\<lambda>key. if key = ''metric'' then Some PyNone else None)))\<rparr>"

definition example_planner :: "nat \<Rightarrow> r_value \<Rightarrow> int option \<Rightarrow> error + int list" where
  "example_planner n r tm =
     (case r of
        RInt k \<Rightarrow> Inr (replicate n k)
      | RList l \<Rightarrow> Inr (l @ replicate (n - length l) 0)
      | RTuple a b \<Rightarrow> Inl TypeError)"

definition example_info :: tome_info where
  "example_info =
     \<lparr>tome_r = RInt 0, tome_size = None, tome_source = None, total_merge = None,
      trace_source = True, prop_attn = True, class_token = False, distill_token = False\<rparr>"

definition example_vit :: "block list \<Rightarrow> r_value \<Rightarrow> (tensor, tensor) vit" where
  "example_vit bs r = \<lparr>blocks = bs, vit_r = r, pre_blocks = (\<lambda>y. y), post_blocks = (\<lambda>y. y)\<rparr>"

definition example_attention2 :: attention where
  "example_attention2 = example_attention\<lparr>num_heads := 2\<rparr>"

text \<open>
  A model before the patch, with two transformer blocks, their attention modules and
  another module, and the empty store.
\<close>

definition example_model :: "(tensor, tensor) model" where
  "example_model =
     \<lparr>model_is_tome = False, model_r = None, model_tome_info = None,
      model_modules =
        [OtherModule, BlockModule Block example_block None, AttentionModule Attention,
         BlockModule TimmBlock example_block None, AttentionModule TimmAttention],
      cls_token = True, dist_token = False,
      model_pre = (\<lambda>y. y), model_post = (\<lambda>y. y)\<rparr>"

definition empty_heap :: heap where
  "empty_heap = \<lparr>next_addr = 0, dicts = (\<lambda>a. None)\<rparr>"

text \<open>A configuration of the benchmark and a timed run that runs out of memory.\<close>

definition example_args :: run_args where
  "example_args =
     \<lparr>model_name = ''vit_base_patch16_224'', batch_size = 8, seq_len = 196,
      algorithm = ''tome'', total_merge_num = 96, warmup_iters = 2, benchmark_iters = 5,
      inflect = - 1 / 2, h_arg = None, use_naive_local = False, verbose = False\<rparr>"

definition out_of_memory :: "run_args \<Rightarrow> error + (real \<times> real)" where
  "out_of_memory a = (if batch_size a > 4 then Inl OutOfMemoryError else Inr (1 / 4, 1048576))"

section \<open>Properties\<close>

subsection \<open>Shapes and the block stack\<close>

lemma map_map2_same:
  assumes "map g xs = map g ys" and "\<And>x y. g x = g y \<Longrightarrow> g (h x y) = g x"
  shows "map g (map2 h xs ys) = map g xs"
  using assms(1)
proof (induction xs arbitrary: ys)
  case Nil
  then show ?case by simp
next
  case (Cons a xs)
  then obtain b ys' where "ys = b # ys'" by (cases ys) auto
  with Cons assms(2) show ?case by simp
qed

lemma shape_map2:
  assumes "shape x = shape y"
  shows "shape (map2 (map2 (map2 f)) x y) = shape x"
proof -
  have tok: "length (map2 f t u) = length t" if "length t = length u" for t u :: "real list"
    using that by simp
  have sq: "map length (map2 (map2 f) s s') = map length s"
    if "map length s = map length s'" for s s' :: "real list list"
    using that tok by (rule map_map2_same)
  show ?thesis
    unfolding shape_def using assms[unfolded shape_def] sq by (rule map_map2_same)
qed

lemma tensor_add_shape: "tensor_add x y = Inr z \<Longrightarrow> shape z = shape x"
  by (auto simp: tensor_add_def shape_map2 split: if_splits)

lemma attend_residual_shape: "attend_residual self info x = Inr (x1, m) \<Longrightarrow> shape x1 = shape x"
  by (auto simp: attend_residual_def Let_def tensor_add_shape
      split: sum.splits option.splits if_splits prod.splits)

lemma mlp_residual_shape: "mlp_residual self x = Inr y \<Longrightarrow> shape y = shape x"
  by (auto simp: mlp_residual_def tensor_add_shape split: sum.splits)

lemma tome_merge_keeps_r:
  "tome_r (final_info (tome_merge lib info m r x)) = tome_r info"
  by (auto simp: tome_merge_def final_info_def split: sum.splits prod.splits if_splits)

lemma blocks_forward_append:
  "blocks_forward lib (pre @ post) info x =
     (case blocks_forward lib pre info x of
        Inl ei \<Rightarrow> Inl ei
      | Inr (x', info') \<Rightarrow> blocks_forward lib post info' x')"
  by (induction pre arbitrary: info x) (auto split: sum.splits)

subsection \<open>Evaluating the example objects\<close>

lemmas attn_eval =
  ToMeAttention_forward_def example_attention_def dim_N_def dim_C_def shape_def size_fits_def split_heads_def
  attn_logits_def qk_scores_def dot_def softmax_def attn_matmul_def merge_heads_def
  mean_heads_def Let_def

lemma example_attend_residual:
  "attend_residual example_block (example_info\<lparr>tome_r := RList [0, 3]\<rparr>) [[[1]]]
     = Inr ([[[2]]], PyTensor [[[1]]])"
  by (simp add: attend_residual_def example_block_def example_info_def attn_eval
      ToMeBlock_drop_path1_def tensor_add_def)

lemma example_mlp_residual: "mlp_residual example_block [[[2]]] = Inr [[[4]]]"
  by (simp add: mlp_residual_def example_block_def ToMeBlock_drop_path2_def tensor_add_def
      shape_def)

subsection \<open>The assertion on the metric\<close>

text \<open>
  Claim C5. When the dictionary returned by a block's attention holds under "metric" a
  value that is neither a float nor a tensor, the block raises AssertionError with the
  shared dictionary exactly as it found it: no schedule entry is popped, no merge and no
  MLP step has run. The exception ends the forward pass of the model: whatever blocks
  ran before, \<^verbatim>\<open>ToMeVisionTransformer.forward\<close> raises the same AssertionError.
\<close>

theorem ToMeBlock_forward_metric_assertion:
  assumes att: "attn b (norm1 b x) (if prop_attn info then tome_size info else None)
                  = Inr (x_attn, metric)"
      and key: "metric ''metric'' = Some m"
      and bad: "\<not> isinstance_float_Tensor m"
      and stack: "blocks self = pre @ b # post"
      and pro: "prologue lib self info0 = Inr info1"
      and before: "blocks_forward lib pre info1 (pre_blocks self x0) = Inr (x, info)"
  shows "ToMeBlock_forward lib b info x = Inl (AssertionError, info)
       \<and> ToMeVisionTransformer_forward lib self info0 x0 = Inl (AssertionError, info)"
proof -
  have ar: "attend_residual b info x = Inl AssertionError"
    using att key bad by (simp add: attend_residual_def)
  then have blk: "ToMeBlock_forward lib b info x = Inl (AssertionError, info)"
    by (simp add: ToMeBlock_forward_def)
  have "blocks_forward lib (pre @ b # post) info1 (pre_blocks self x0)
          = Inl (AssertionError, info)"
    using before blk by (simp add: blocks_forward_append)
  then show ?thesis
    using blk pro stack by (simp add: ToMeVisionTransformer_forward_def)
qed

theorem ToMeBlock_forward_metric_assertion_witness:
  "\<not> isinstance_float_Tensor PyNone
   \<and> ToMeVisionTransformer_forward (spec_lib dot example_planner)
        (example_vit [unwired_block, example_block] (RInt 0)) example_info [[[1]]]
      = Inl (AssertionError, example_info\<lparr>tome_r := RList [0, 0]\<rparr>)"
  using ToMeBlock_forward_metric_assertion
    [of unwired_block "[[[1]]]" "example_info\<lparr>tome_r := RList [0, 0]\<rparr>" "[[[1]]]"
        "\<lambda>key. if key = ''metric'' then Some PyNone else None" PyNone
        "example_vit [unwired_block, example_block] (RInt 0)" "[]" "[example_block]"
        "spec_lib dot example_planner" example_info
        "example_info\<lparr>tome_r := RList [0, 0]\<rparr>" "[[[1]]]"]
  by (simp add: unwired_block_def example_block_def example_vit_def prologue_def spec_lib_def
      example_planner_def example_info_def numeral_2_eq_2)

subsection \<open>One schedule entry per block\<close>

text \<open>
  Claim C2. A call of \<^verbatim>\<open>ToMeBlock.forward\<close> pops the schedule only after attention and
  the first residual: if these raise, the dictionary is untouched. Once they have
  returned and the schedule has a first entry, the call leaves the schedule without
  exactly that entry, whether it returns or raises later, and also when the entry is
  zero. When the popped entry is not positive the matcher and the applicator are not
  called: the result is the MLP residual of the first residual, whatever the library,
  and the token count, the size and the source trace are those before the call.
\<close>

theorem ToMeBlock_forward_pops_one_entry:
  fixes lib :: "'m tome_lib"
  shows "(attend_residual self info x = Inl e \<longrightarrow>
            ToMeBlock_forward lib self info x = Inl (e, info))
       \<and> (attend_residual self info x = Inr (x1, m) \<and> tome_r info = RList (r # rest) \<longrightarrow>
            tome_r (final_info (ToMeBlock_forward lib self info x)) = RList rest
          \<and> (r \<le> 0 \<longrightarrow>
               ToMeBlock_forward lib self info x =
                 (case mlp_residual self x1 of
                    Inl e' \<Rightarrow> Inl (e', info\<lparr>tome_r := RList rest\<rparr>)
                  | Inr x3 \<Rightarrow> Inr (x3, info\<lparr>tome_r := RList rest\<rparr>))))
       \<and> (ToMeBlock_forward lib self info x = Inr (x', info') \<longrightarrow>
            (\<exists>r' rest'. tome_r info = RList (r' # rest') \<and> tome_r info' = RList rest'
               \<and> (r' \<le> 0 \<longrightarrow> shape x' = shape x \<and> tome_size info' = tome_size info
                              \<and> tome_source info' = tome_source info)))"
proof (intro conjI impI)
  assume "attend_residual self info x = Inl e"
  then show "ToMeBlock_forward lib self info x = Inl (e, info)"
    by (simp add: ToMeBlock_forward_def)
next
  assume a: "attend_residual self info x = Inr (x1, m) \<and> tome_r info = RList (r # rest)"
  show "tome_r (final_info (ToMeBlock_forward lib self info x)) = RList rest"
  proof (cases "r > 0")
    case True
    have "tome_r (final_info (tome_merge lib (info\<lparr>tome_r := RList rest\<rparr>) m r x1))
            = RList rest"
      by (simp add: tome_merge_keeps_r)
    with a True show ?thesis
      by (auto simp: ToMeBlock_forward_def final_info_def split: sum.splits prod.splits)
  next
    case False
    with a show ?thesis
      by (auto simp: ToMeBlock_forward_def final_info_def split: sum.splits prod.splits)
  qed
next
  assume a: "attend_residual self info x = Inr (x1, m) \<and> tome_r info = RList (r # rest)"
    and "r \<le> 0"
  then show "ToMeBlock_forward lib self info x =
                 (case mlp_residual self x1 of
                    Inl e' \<Rightarrow> Inl (e', info\<lparr>tome_r := RList rest\<rparr>)
                  | Inr x3 \<Rightarrow> Inr (x3, info\<lparr>tome_r := RList rest\<rparr>))"
    by (simp add: ToMeBlock_forward_def)
next
  assume ok: "ToMeBlock_forward lib self info x = Inr (x', info')"
  then obtain y1 m1 where ar: "attend_residual self info x = Inr (y1, m1)"
    by (auto simp: ToMeBlock_forward_def split: sum.splits)
  from ok ar obtain r' rv where pop: "pop0 (tome_r info) = Inr (r', rv)"
    by (auto simp: ToMeBlock_forward_def split: sum.splits)
  then obtain rest' where rl: "tome_r info = RList (r' # rest')" and rv: "rv = RList rest'"
    by (cases "tome_r info" rule: pop0.cases) auto
  have fin: "tome_r (final_info (ToMeBlock_forward lib self info x)) = RList rest'"
  proof (cases "r' > 0")
    case True
    have "tome_r (final_info (tome_merge lib (info\<lparr>tome_r := RList rest'\<rparr>) m1 r' y1))
            = RList rest'"
      by (simp add: tome_merge_keeps_r)
    with ar rl True show ?thesis
      by (auto simp: ToMeBlock_forward_def final_info_def split: sum.splits prod.splits)
  next
    case False
    with ar rl show ?thesis
      by (auto simp: ToMeBlock_forward_def final_info_def split: sum.splits prod.splits)
  qed
  have skip: "shape x' = shape x \<and> tome_size info' = tome_size info
                \<and> tome_source info' = tome_source info" if "r' \<le> 0"
    using that ok ar rl attend_residual_shape[OF ar]
    by (auto simp: ToMeBlock_forward_def dest: mlp_residual_shape split: sum.splits)
  show "\<exists>r' rest'. tome_r info = RList (r' # rest') \<and> tome_r info' = RList rest'
               \<and> (r' \<le> 0 \<longrightarrow> shape x' = shape x \<and> tome_size info' = tome_size info
                              \<and> tome_source info' = tome_source info)"
    using rl fin ok skip by (auto simp: final_info_def)
qed

theorem ToMeBlock_forward_pops_one_entry_witness:
  "attend_residual example_block (example_info\<lparr>tome_r := RList [0, 3]\<rparr>) [[[1]]]
     = Inr ([[[2]]], PyTensor [[[1]]])
   \<and> tome_r (example_info\<lparr>tome_r := RList [0, 3]\<rparr>) = RList [0, 3]
   \<and> ToMeBlock_forward (spec_lib dot example_planner) example_block
        (example_info\<lparr>tome_r := RList [0, 3]\<rparr>) [[[1]]]
      = Inr ([[[4]]], example_info\<lparr>tome_r := RList [3]\<rparr>)"
  using ToMeBlock_forward_pops_one_entry
    [where self = example_block and info = "example_info\<lparr>tome_r := RList [0, 3]\<rparr>"
       and x = "[[[1]]]" and ?x1.0 = "[[[2]]]" and m = "PyTensor [[[1]]]" and r = 0
       and rest = "[3]" and lib = "spec_lib dot example_planner"]
    example_attend_residual
  by (simp add: example_mlp_residual)

subsection \<open>The attention module\<close>



lemma split_heads_nth:
  assumes "b < length y" "h < H" "n < length (y ! b)" "c < d"
      and "length (y ! b ! n) = 3 * H * d" "s < 3"
  shows "split_heads s H d y ! b ! h ! n ! c = y ! b ! n ! (s * H * d + h * d + c)"
proof -
  have "h * d + d \<le> H * d"
    using assms(2) by (metis Suc_leI mult_Suc mult_le_mono1 add.commute)
  moreover have "s * H * d + H * d \<le> 3 * H * d"
    using assms(6) by (metis Suc_leI mult_Suc mult_le_mono1 add.commute mult.assoc)
  ultimately have le: "s * H * d + h * d + d \<le> length (y ! b ! n)"
    using assms(5) by linarith
  show ?thesis
    using assms(1-4) le by (simp add: split_heads_def add.assoc)
qed

lemma mean_heads_nth:
  assumes "b < length k" "n < N" "c < d"
  shows "mean_heads H N d k ! b ! n ! c = (\<Sum>h = 0..<H. k ! b ! h ! n ! c) / real H"
  using assms by (simp add: mean_heads_def interv_sum_list_conv_sum_set_nat)


lemma dims_of_shape:
  assumes "shape x = replicate B (replicate N C)" "0 < B" "0 < N"
  shows "dim_N x = N" "dim_C x = C" "length x = B"
    "\<And>b. b < B \<Longrightarrow> length (x ! b) = N"
proof -
  have len: "length x = B"
    using assms(1) by (metis length_map length_replicate shape_def)
  then show "length x = B" .
  have row: "map length (x ! b) = replicate N C" if "b < B" for b
    using assms(1) that len by (metis nth_map nth_replicate shape_def)
  show "length (x ! b) = N" if "b < B" for b
    using row[OF that] by (metis length_map length_replicate)
  obtain xb xs where x: "x = xb # xs"
    using len assms(2) by (cases x) auto
  have xb: "map length xb = replicate N C"
    using row[of 0] assms(2) x by simp
  then have "length xb = N"
    by (metis length_map length_replicate)
  then show "dim_N x = N"
    by (simp add: dim_N_def x)
  obtain t ts where t: "xb = t # ts"
    using \<open>length xb = N\<close> assms(3) by (cases xb) auto
  with xb have "length t = C"
    by (cases N) auto
  then show "dim_C x = C"
    by (simp add: dim_C_def x t)
qed


lemma ToMeAttention_forward_metric_size:
  assumes "ToMeAttention_forward self x s1 = Inr (o1, m1)"
      and "ToMeAttention_forward self x s2 = Inr (o2, m2)"
  shows "m1 = m2"
  using assms unfolding ToMeAttention_forward_def Let_def by (auto split: if_splits)

text \<open>
  Claim C8. When \<^verbatim>\<open>ToMeAttention.forward\<close> returns on a tensor of shape [B, N, C], the
  dictionary it returns holds under "metric" a tensor of shape [B, N, C div H] whose
  entry [b, n, c] is the mean over the H heads of the key projection of token n (the
  middle third of the output of the linear layer \<^verbatim>\<open>qkv\<close>, head by head). It is computed
  from the tokens the attention is called on, whatever the size: a block wired to this
  attention uses, in whatever state the shared dictionary is, the metric of its current
  normalised tokens.
\<close>

theorem ToMeAttention_forward_metric:
  assumes fwd: "ToMeAttention_forward self x size_opt = Inr (out, metric)"
      and shp: "shape x = replicate B (replicate N C)" and B: "0 < B" and N: "0 < N"
  shows "\<exists>m. metric ''metric'' = Some (PyTensor m)
           \<and> shape m = replicate B (replicate N (C div num_heads self))
           \<and> (\<forall>b<B. \<forall>n<N. \<forall>c<C div num_heads self.
                 m ! b ! n ! c =
                   (\<Sum>h = 0..<num_heads self.
                       qkv self x ! b ! n
                         ! (num_heads self * (C div num_heads self) + h * (C div num_heads self) + c))
                   / real (num_heads self))
           \<and> (\<forall>blk info x0 x1 mv.
                 attn blk = ToMeAttention_forward self \<and> norm1 blk x0 = x
                 \<and> attend_residual blk info x0 = Inr (x1, mv) \<longrightarrow> mv = PyTensor m)"
proof -
  define H where "H = num_heads self"
  define d where "d = C div H"
  define y where "y = qkv self x"
  define k where "k = split_heads 1 H d y"
  note dm = dims_of_shape[OF shp B N]
  have ysh: "shape y = map (map (\<lambda>t. 3 * H * d)) x"
    using fwd unfolding ToMeAttention_forward_def Let_def H_def d_def y_def dm
    by (auto split: if_splits)
  have met: "metric ''metric'' = Some (PyTensor (mean_heads H N d k))"
    using fwd unfolding ToMeAttention_forward_def Let_def H_def d_def y_def k_def dm
    by (auto split: if_splits)
  have leny: "length y = B"
    using ysh dm(3) by (metis length_map shape_def)
  have lenk: "length k = B"
    by (simp add: k_def split_heads_def leny)
  have lenyb: "length (y ! b) = N" if "b < B" for b
  proof -
    have "map length (y ! b) = map (\<lambda>t. 3 * H * d) (x ! b)"
      using ysh that leny dm(3) by (metis nth_map shape_def)
    then show ?thesis
      using dm(4)[OF that] by (metis length_map)
  qed
  have lentok: "length (y ! b ! n) = 3 * H * d" if "b < B" "n < N" for b n
  proof -
    have "map length (y ! b) = map (\<lambda>t. 3 * H * d) (x ! b)"
      using ysh that leny dm(3) by (metis nth_map shape_def)
    then have "length (y ! b ! n) = (\<lambda>t. 3 * H * d) (x ! b ! n)"
      using that lenyb[OF that(1)] dm(4)[OF that(1)] by (metis nth_map)
    then show ?thesis by simp
  qed
  have shm: "shape (mean_heads H N d k) = replicate B (replicate N d)"
    by (simp add: shape_def mean_heads_def lenk map_replicate_const comp_def)
  have val: "mean_heads H N d k ! b ! n ! c = (\<Sum>h = 0..<H. y ! b ! n ! (H * d + h * d + c)) / real H"
    if "b < B" "n < N" "c < d" for b n c
  proof -
    have "mean_heads H N d k ! b ! n ! c = (\<Sum>h = 0..<H. k ! b ! h ! n ! c) / real H"
      using that lenk by (simp add: mean_heads_nth)
    also have "(\<Sum>h = 0..<H. k ! b ! h ! n ! c) = (\<Sum>h = 0..<H. y ! b ! n ! (H * d + h * d + c))"
    proof (rule sum.cong[OF refl])
      fix h assume "h \<in> {0..<H}"
      then have "h < H" by simp
      then show "k ! b ! h ! n ! c = y ! b ! n ! (H * d + h * d + c)"
        using split_heads_nth[of b y h H n c d 1] that leny lenyb lentok
        by (simp add: k_def)
    qed
    finally show ?thesis .
  qed
  have fresh: "mv = PyTensor (mean_heads H N d k)"
    if w: "attn blk = ToMeAttention_forward self" "norm1 blk x0 = x"
      and ar: "attend_residual blk info x0 = Inr (x1, mv)" for blk info x0 x1 mv
  proof -
    from ar w obtain o2 m2 where
      f2: "ToMeAttention_forward self x (if prop_attn info then tome_size info else None) = Inr (o2, m2)"
      and mv: "m2 ''metric'' = Some mv"
      by (auto simp: attend_residual_def Let_def split: sum.splits option.splits if_splits)
    have "m2 = metric"
      using ToMeAttention_forward_metric_size[OF f2 fwd] .
    with mv met show ?thesis by simp
  qed
  show ?thesis
    using met shm val fresh unfolding H_def d_def y_def by blast
qed

theorem ToMeAttention_forward_metric_witness:
  "\<exists>out metric m.
      ToMeAttention_forward example_attention2 [[[1, 2]]] None = Inr (out, metric)
    \<and> shape [[[1, 2]]] = replicate 1 (replicate 1 2)
    \<and> metric ''metric'' = Some (PyTensor m) \<and> shape m = [[1]] \<and> m ! 0 ! 0 ! 0 = 3 / 2"
proof -
  obtain out metric where
    f: "ToMeAttention_forward example_attention2 [[[1, 2]]] None = Inr (out, metric)"
    by (simp add: example_attention2_def attn_eval)
  have s: "shape [[[1, 2]]] = replicate 1 (replicate 1 2)"
    by (simp add: shape_def)
  from ToMeAttention_forward_metric[OF f s] obtain m where
    m: "metric ''metric'' = Some (PyTensor m)" "shape m = replicate 1 (replicate 1 (2 div num_heads example_attention2))"
     "\<forall>b<1. \<forall>n<1. \<forall>c<2 div num_heads example_attention2.
                 m ! b ! n ! c =
                   (\<Sum>h = 0..<num_heads example_attention2.
                       qkv example_attention2 [[[1, 2]]] ! b ! n
                         ! (num_heads example_attention2 * (2 div num_heads example_attention2) + h * (2 div num_heads example_attention2) + c))
                   / real (num_heads example_attention2)"
    by auto
  have "m ! 0 ! 0 ! 0 = 3 / 2"
    using m(3) by (simp add: example_attention2_def example_attention_def numeral_2_eq_2)
  moreover have "shape m = [[1]]"
    using m(2) by (simp add: example_attention2_def example_attention_def)
  ultimately show ?thesis
    using f s m(1) by blast
qed


lemma split_heads_lengths:
  "length (split_heads s H d y) = length y"
  "b < length y \<Longrightarrow> length (split_heads s H d y ! b) = H"
  "b < length y \<Longrightarrow> h < H \<Longrightarrow> length (split_heads s H d y ! b ! h) = length (y ! b)"
  by (simp_all add: split_heads_def)

lemma qk_scores_lengths:
  assumes "length q = length k" "b < length q" "length (q ! b) = length (k ! b)" "h < length (q ! b)"
  shows "length (qk_scores sc q k) = length q"
    "length (qk_scores sc q k ! b) = length (q ! b)"
    "length (qk_scores sc q k ! b ! h) = length (q ! b ! h)"
    "i < length (q ! b ! h) \<Longrightarrow> length (qk_scores sc q k ! b ! h ! i) = length (k ! b ! h)"
  using assms by (simp_all add: qk_scores_def)

lemma add_log_size_nth:
  assumes "b < length a" "b < length sz" "h < length (a ! b)" "i < length (a ! b ! h)"
      and "j < length (a ! b ! h ! i)" "j < length (sz ! b)" "sz ! b ! j \<noteq> []"
  shows "add_log_size a sz ! b ! h ! i ! j = a ! b ! h ! i ! j + ln (sz ! b ! j ! 0)"
  using assms by (simp add: add_log_size_def hd_conv_nth)

lemma shape_lengths:
  assumes "shape y = map (map f) x"
  shows "length y = length x" "b < length x \<Longrightarrow> length (y ! b) = length (x ! b)"
proof -
  show l: "length y = length x"
    using assms by (metis length_map shape_def)
  show "length (y ! b) = length (x ! b)" if "b < length x"
  proof -
    have "map length (y ! b) = map f (x ! b)"
      using assms that l by (metis nth_map shape_def)
    then show ?thesis by (metis length_map)
  qed
qed

lemma size_fits_Some:
  assumes "size_fits x (Some sz)"
  shows "length sz = length x" "b < length x \<Longrightarrow> length (sz ! b) = length (x ! b)"
    "b < length x \<Longrightarrow> j < length (x ! b) \<Longrightarrow> sz ! b ! j \<noteq> []"
proof -
  from assms have ml: "map length sz = map length x" and ne: "list_all (list_all (\<lambda>t. t \<noteq> [])) sz"
    by (simp_all add: size_fits_def)
  show l: "length sz = length x" using ml by (metis length_map)
  show lb: "length (sz ! b) = length (x ! b)" if "b < length x" for b
    using ml that l by (metis nth_map)
  show "sz ! b ! j \<noteq> []" if "b < length x" "j < length (x ! b)"
    using ne that l lb[OF that(1)] by (simp add: list_all_length)
qed

lemma logits_bias:
  assumes ysh: "shape y = map (map f) x" and fit: "size_fits x (Some sz)"
      and "b < length x" "h < H" "i < length (x ! b)" "j < length (x ! b)"
  shows "attn_logits sc (split_heads 0 H d y) (split_heads 1 H d y) (Some sz) ! b ! h ! i ! j
       = attn_logits sc (split_heads 0 H d y) (split_heads 1 H d y) None ! b ! h ! i ! j
         + ln (sz ! b ! j ! 0)"
proof -
  let ?q = "split_heads 0 H d y" and ?k = "split_heads 1 H d y"
  note yl = shape_lengths[OF ysh] and sl = size_fits_Some[OF fit]
  have b: "b < length y" using yl assms(3) by simp
  have 1: "length (qk_scores sc ?q ?k) = length y"
    by (simp add: qk_scores_def split_heads_lengths)
  have 2: "length (qk_scores sc ?q ?k ! b) = H"
    using b by (simp add: qk_scores_def split_heads_lengths)
  have 3: "length (qk_scores sc ?q ?k ! b ! h) = length (x ! b)"
    using b assms(3,4) yl by (simp add: qk_scores_def split_heads_lengths)
  have 4: "length (qk_scores sc ?q ?k ! b ! h ! i) = length (x ! b)"
    using b assms(3,4,5) yl by (simp add: qk_scores_def split_heads_lengths)
  show ?thesis
    unfolding attn_logits_def option.case
    using add_log_size_nth[of b "qk_scores sc ?q ?k" sz h i j] 1 2 3 4 b assms(3-6) sl
    by simp
qed

lemma add_log_size_ones:
  assumes "length a = length x" 
    and "\<And>b h i. b < length x \<Longrightarrow> h < length (a ! b) \<Longrightarrow> i < length (a ! b ! h) \<Longrightarrow> length (a ! b ! h ! i) = length (x ! b)"
  shows "add_log_size a (ones_like x) = a"
proof -
  have row: "map2 (\<lambda>s t. s + ln (hd t)) row (map (\<lambda>t. [1::real]) xb) = row"
    if "length row = length xb" for row :: "real list" and xb :: "real list list"
    using that by (induction row xb rule: list_induct2) auto
  show ?thesis
    unfolding add_log_size_def ones_like_def
    apply (rule nth_equalityI)
     apply (simp add: assms(1))
    apply (simp add: assms(1))
    apply (rule nth_equalityI)
     apply simp
    apply simp
    apply (rule nth_equalityI)
     apply simp
    apply (simp add: row assms(2))
    done
qed


lemma ToMeBlock_drop_path1_attn_update:
  "ToMeBlock_drop_path1 (blk\<lparr>attn := f\<rparr>) = ToMeBlock_drop_path1 blk"
  by (rule ext) (simp add: ToMeBlock_drop_path1_def split: option.splits)

lemma tensor4_eqI:
  fixes a c :: tensor4
  assumes l0: "length a = length c"
      and l1: "\<And>b. b < length a \<Longrightarrow> length (a ! b) = length (c ! b)"
      and l2: "\<And>b h. b < length a \<Longrightarrow> h < length (a ! b) \<Longrightarrow> length (a ! b ! h) = length (c ! b ! h)"
      and l3: "\<And>b h i. b < length a \<Longrightarrow> h < length (a ! b) \<Longrightarrow> i < length (a ! b ! h)
                 \<Longrightarrow> length (a ! b ! h ! i) = length (c ! b ! h ! i)"
      and e: "\<And>b h i j. b < length a \<Longrightarrow> h < length (a ! b) \<Longrightarrow> i < length (a ! b ! h)
                 \<Longrightarrow> j < length (a ! b ! h ! i) \<Longrightarrow> a ! b ! h ! i ! j = c ! b ! h ! i ! j"
  shows "a = c"
proof (rule nth_equalityI[OF l0])
  fix b assume b: "b < length a"
  show "a ! b = c ! b"
  proof (rule nth_equalityI[OF l1[OF b]])
    fix h assume h: "h < length (a ! b)"
    show "a ! b ! h = c ! b ! h"
    proof (rule nth_equalityI[OF l2[OF b h]])
      fix i assume i: "i < length (a ! b ! h)"
      show "a ! b ! h ! i = c ! b ! h ! i"
        by (rule nth_equalityI[OF l3[OF b h i]]) (rule e[OF b h i])
    qed
  qed
qed

lemma attn_logits_is_biased_scores:
  assumes ysh: "shape y' = map (map f) y" and fit: "size_fits y size_opt"
  shows "attn_logits sc (split_heads 0 H d y') (split_heads 1 H d y') size_opt
       = biased_scores sc (split_heads 0 H d y') (split_heads 1 H d y') size_opt"
proof -
  let ?q = "split_heads 0 H d y'" and ?k = "split_heads 1 H d y'"
  note yl = shape_lengths[OF ysh]
  have lq: "length ?q = length y'" "length ?k = length y'"
    by (simp_all add: split_heads_lengths)
  have lqb: "length (?q ! b) = H" "length (?k ! b) = H" if "b < length y'" for b
    using that by (simp_all add: split_heads_lengths)
  have lqh: "length (?q ! b ! h) = length (y' ! b)" "length (?k ! b ! h) = length (y' ! b)"
    if "b < length y'" "h < H" for b h
    using that by (simp_all add: split_heads_lengths)
  have qk0: "length (qk_scores sc ?q ?k) = length y'"
    by (simp add: qk_scores_def lq del: One_nat_def)
  have qk1: "length (qk_scores sc ?q ?k ! b) = H" if "b < length y'" for b
    using that by (simp add: qk_scores_def lq lqb del: One_nat_def)
  have qk2: "length (qk_scores sc ?q ?k ! b ! h) = length (y' ! b)"
    if "b < length y'" "h < H" for b h
    using that by (simp add: qk_scores_def lq lqb lqh del: One_nat_def)
  have qk3: "length (qk_scores sc ?q ?k ! b ! h ! i) = length (y' ! b)"
    if "b < length y'" "h < H" "i < length (y' ! b)" for b h i
    using that by (simp add: qk_scores_def lq lqb lqh del: One_nat_def)
  have qk4: "qk_scores sc ?q ?k ! b ! h ! i ! j = dot (?q ! b ! h ! i) (?k ! b ! h ! j) * sc"
    if "b < length y'" "h < H" "i < length (y' ! b)" "j < length (y' ! b)" for b h i j
    using that by (simp add: qk_scores_def lq lqb lqh del: One_nat_def)
  have bs0: "length (biased_scores sc ?q ?k size_opt) = length y'"
    by (simp add: biased_scores_def lq del: One_nat_def)
  have bs1: "length (biased_scores sc ?q ?k size_opt ! b) = H" if "b < length y'" for b
    using that by (simp add: biased_scores_def lq lqb del: One_nat_def)
  have bs2: "length (biased_scores sc ?q ?k size_opt ! b ! h) = length (y' ! b)"
    if "b < length y'" "h < H" for b h
    using that by (simp add: biased_scores_def lq lqb lqh del: One_nat_def)
  have bs3: "length (biased_scores sc ?q ?k size_opt ! b ! h ! i) = length (y' ! b)"
    if "b < length y'" "h < H" "i < length (y' ! b)" for b h i
    using that by (simp add: biased_scores_def lq lqb lqh del: One_nat_def)
  have bs4: "biased_scores sc ?q ?k size_opt ! b ! h ! i ! j
               = dot (?q ! b ! h ! i) (?k ! b ! h ! j) * sc
                 + (case size_opt of None \<Rightarrow> 0 | Some sz \<Rightarrow> ln (sz ! b ! j ! 0))"
    if "b < length y'" "h < H" "i < length (y' ! b)" "j < length (y' ! b)" for b h i j
    using that by (simp add: biased_scores_def lq lqb lqh del: One_nat_def
                        cong: option.case_cong)
  show ?thesis
  proof (cases size_opt)
    case None
    show ?thesis
      unfolding None attn_logits_def option.case
    proof (rule tensor4_eqI)
      show "length (qk_scores sc ?q ?k) = length (biased_scores sc ?q ?k None)"
        using qk0 bs0 by (simp add: None)
    next
      fix b assume "b < length (qk_scores sc ?q ?k)"
      then have b: "b < length y'" using qk0 by simp
      show "length (qk_scores sc ?q ?k ! b) = length (biased_scores sc ?q ?k None ! b)"
        using qk1[OF b] bs1[OF b] by (simp add: None)
      fix h assume "h < length (qk_scores sc ?q ?k ! b)"
      then have h: "h < H" using qk1[OF b] by simp
      show "length (qk_scores sc ?q ?k ! b ! h) = length (biased_scores sc ?q ?k None ! b ! h)"
        using qk2[OF b h] bs2[OF b h] by (simp add: None)
      fix i assume "i < length (qk_scores sc ?q ?k ! b ! h)"
      then have i: "i < length (y' ! b)" using qk2[OF b h] by simp
      show "length (qk_scores sc ?q ?k ! b ! h ! i)
              = length (biased_scores sc ?q ?k None ! b ! h ! i)"
        using qk3[OF b h i] bs3[OF b h i] by (simp add: None)
      fix j assume "j < length (qk_scores sc ?q ?k ! b ! h ! i)"
      then have j: "j < length (y' ! b)" using qk3[OF b h i] by simp
      show "qk_scores sc ?q ?k ! b ! h ! i ! j = biased_scores sc ?q ?k None ! b ! h ! i ! j"
        using qk4[OF b h i j] bs4[OF b h i j] by (simp add: None)
    qed
  next
    case (Some sz)
    note sl = size_fits_Some[OF fit[unfolded Some]]
    let ?a = "qk_scores sc ?q ?k"
    have al0: "length (add_log_size ?a sz) = length y'"
      using qk0 sl(1) yl(1) by (simp add: add_log_size_def)
    have al1: "length (add_log_size ?a sz ! b) = H" if "b < length y'" for b
      using that qk0 qk1[OF that] sl(1) yl(1) by (simp add: add_log_size_def)
    have al2: "length (add_log_size ?a sz ! b ! h) = length (y' ! b)"
      if "b < length y'" "h < H" for b h
      using that qk0 qk1[OF that(1)] qk2[OF that] sl(1) yl(1) by (simp add: add_log_size_def)
    have al3: "length (add_log_size ?a sz ! b ! h ! i) = length (y' ! b)"
      if "b < length y'" "h < H" "i < length (y' ! b)" for b h i
      using that qk0 qk1[OF that(1)] qk2[OF that(1,2)] qk3[OF that] sl(1) sl(2)[of b] yl
      by (simp add: add_log_size_def)
    have al4: "add_log_size ?a sz ! b ! h ! i ! j = ?a ! b ! h ! i ! j + ln (sz ! b ! j ! 0)"
      if "b < length y'" "h < H" "i < length (y' ! b)" "j < length (y' ! b)" for b h i j
      using add_log_size_nth[of b ?a sz h i j] that qk0 qk1[OF that(1)] qk2[OF that(1,2)]
        qk3[OF that(1,2,3)] sl(1) sl(2)[of b] sl(3)[of b j] yl
      by simp
    show ?thesis
      unfolding Some attn_logits_def option.case
    proof (rule tensor4_eqI)
      show "length (add_log_size ?a sz) = length (biased_scores sc ?q ?k (Some sz))"
        using al0 bs0 by (simp add: Some)
    next
      fix b assume "b < length (add_log_size ?a sz)"
      then have b: "b < length y'" using al0 by simp
      show "length (add_log_size ?a sz ! b) = length (biased_scores sc ?q ?k (Some sz) ! b)"
        using al1[OF b] bs1[OF b] by (simp add: Some)
      fix h assume "h < length (add_log_size ?a sz ! b)"
      then have h: "h < H" using al1[OF b] by simp
      show "length (add_log_size ?a sz ! b ! h)
              = length (biased_scores sc ?q ?k (Some sz) ! b ! h)"
        using al2[OF b h] bs2[OF b h] by (simp add: Some)
      fix i assume "i < length (add_log_size ?a sz ! b ! h)"
      then have i: "i < length (y' ! b)" using al2[OF b h] by simp
      show "length (add_log_size ?a sz ! b ! h ! i)
              = length (biased_scores sc ?q ?k (Some sz) ! b ! h ! i)"
        using al3[OF b h i] bs3[OF b h i] by (simp add: Some)
      fix j assume "j < length (add_log_size ?a sz ! b ! h ! i)"
      then have j: "j < length (y' ! b)" using al3[OF b h i] by simp
      show "add_log_size ?a sz ! b ! h ! i ! j = biased_scores sc ?q ?k (Some sz) ! b ! h ! i ! j"
        using al4[OF b h i j] qk4[OF b h i j] bs4[OF b h i j] by (simp add: Some)
    qed
  qed
qed


text \<open>
  Claim C3. With proportional attention enabled the block calls its attention with the
  size stored in the shared dictionary; with it disabled the attention is called without
  a size, and the first residual does not depend on the stored size. Whenever
  \<^verbatim>\<open>ToMeAttention.forward\<close> returns, what it returns is the projection of the merged
  heads of the product of the values with the (dropped-out) softmax over the keys of
  the biased scores: the scaled product of query i and key j plus, when a size is given,
  the logarithm of the size of key token j, and with no bias when no size is given. This
  holds in the fused branch (scale \<open>1 / sqrt d\<close>, functional dropout) and in the naive
  branch (the module's scale and dropout layer) alike.
\<close>

theorem proportional_attention:
  shows "(prop_attn info \<longrightarrow>
            attend_residual blk info x
              = attend_residual (blk\<lparr>attn := (\<lambda>y s. attn blk y (tome_size info))\<rparr>) info x)
       \<and> (\<not> prop_attn info \<longrightarrow>
            attend_residual blk info x
              = attend_residual (blk\<lparr>attn := (\<lambda>y s. attn blk y None)\<rparr>) info x
          \<and> attend_residual blk (info\<lparr>tome_size := s'\<rparr>) x = attend_residual blk info x)
       \<and> (ToMeAttention_forward self y size_opt = Inr res \<longrightarrow>
            res =
              (proj_drop self (proj self (merge_heads (dim_N y)
                 (attn_matmul (dim_C y div num_heads self)
                    ((if fused_attn self
                      then F_dropout self (if training self then attn_drop_p self else 0)
                      else attn_drop self)
                       (map (map (map softmax))
                          (biased_scores
                             (if fused_attn self
                              then 1 / sqrt (real (dim_C y div num_heads self))
                              else scale self)
                             (split_heads 0 (num_heads self) (dim_C y div num_heads self)
                                (qkv self y))
                             (split_heads 1 (num_heads self) (dim_C y div num_heads self)
                                (qkv self y))
                             size_opt)))
                    (split_heads 2 (num_heads self) (dim_C y div num_heads self)
                       (qkv self y))))),
               (\<lambda>key. if key = ''metric''
                      then Some (PyTensor (mean_heads (num_heads self) (dim_N y)
                                   (dim_C y div num_heads self)
                                   (split_heads 1 (num_heads self) (dim_C y div num_heads self)
                                      (qkv self y))))
                      else None)))
       \<and> (\<forall>b<length q. \<forall>h<length (q ! b). \<forall>i<length (q ! b ! h). \<forall>j<length (k ! b ! h).
            biased_scores sc q k (Some sz) ! b ! h ! i ! j
              = dot (q ! b ! h ! i) (k ! b ! h ! j) * sc + ln (sz ! b ! j ! 0)
          \<and> biased_scores sc q k None ! b ! h ! i ! j
              = dot (q ! b ! h ! i) (k ! b ! h ! j) * sc)"
proof (intro conjI impI allI)
  assume "prop_attn info"
  then show "attend_residual blk info x
              = attend_residual (blk\<lparr>attn := (\<lambda>y s. attn blk y (tome_size info))\<rparr>) info x"
    by (simp add: attend_residual_def ToMeBlock_drop_path1_attn_update
        cong: sum.case_cong option.case_cong prod.case_cong if_cong)
next
  assume "\<not> prop_attn info"
  then show "attend_residual blk info x
              = attend_residual (blk\<lparr>attn := (\<lambda>y s. attn blk y None)\<rparr>) info x"
    by (simp add: attend_residual_def ToMeBlock_drop_path1_attn_update
        cong: sum.case_cong option.case_cong prod.case_cong if_cong)
next
  assume "\<not> prop_attn info"
  then show "attend_residual blk (info\<lparr>tome_size := s'\<rparr>) x = attend_residual blk info x"
    by (simp add: attend_residual_def)
next
  let ?H = "num_heads self" and ?d = "dim_C y div num_heads self"
  assume f: "ToMeAttention_forward self y size_opt = Inr res"
  have ysh: "shape (qkv self y) = map (map (\<lambda>t. 3 * ?H * ?d)) y"
    and fit: "size_fits y size_opt"
    using f unfolding ToMeAttention_forward_def Let_def by (auto split: if_splits)
  have eq: "attn_logits c (split_heads 0 ?H ?d (qkv self y)) (split_heads 1 ?H ?d (qkv self y))
              size_opt
          = biased_scores c (split_heads 0 ?H ?d (qkv self y))
              (split_heads 1 ?H ?d (qkv self y)) size_opt" for c
    by (rule attn_logits_is_biased_scores[OF ysh fit])
  show "res =
              (proj_drop self (proj self (merge_heads (dim_N y)
                 (attn_matmul (dim_C y div num_heads self)
                    ((if fused_attn self
                      then F_dropout self (if training self then attn_drop_p self else 0)
                      else attn_drop self)
                       (map (map (map softmax))
                          (biased_scores
                             (if fused_attn self
                              then 1 / sqrt (real (dim_C y div num_heads self))
                              else scale self)
                             (split_heads 0 (num_heads self) (dim_C y div num_heads self)
                                (qkv self y))
                             (split_heads 1 (num_heads self) (dim_C y div num_heads self)
                                (qkv self y))
                             size_opt)))
                    (split_heads 2 (num_heads self) (dim_C y div num_heads self)
                       (qkv self y))))),
               (\<lambda>key. if key = ''metric''
                      then Some (PyTensor (mean_heads (num_heads self) (dim_N y)
                                   (dim_C y div num_heads self)
                                   (split_heads 1 (num_heads self) (dim_C y div num_heads self)
                                      (qkv self y))))
                      else None))"
  proof (cases "fused_attn self")
    case True
    show ?thesis
      using f ysh fit unfolding ToMeAttention_forward_def Let_def
      by (simp add: True eq del: One_nat_def split: if_splits)
  next
    case False
    show ?thesis
      using f ysh fit unfolding ToMeAttention_forward_def Let_def
      by (simp add: False eq del: One_nat_def split: if_splits)
  qed
next
  fix b h i j
  assume r: "b < length q" "h < length (q ! b)" "i < length (q ! b ! h)" "j < length (k ! b ! h)"
  show "biased_scores sc q k (Some sz) ! b ! h ! i ! j
              = dot (q ! b ! h ! i) (k ! b ! h ! j) * sc + ln (sz ! b ! j ! 0)"
    using r by (simp add: biased_scores_def)
  show "biased_scores sc q k None ! b ! h ! i ! j = dot (q ! b ! h ! i) (k ! b ! h ! j) * sc"
    using r by (simp add: biased_scores_def)
qed

theorem proportional_attention_witness:
  "prop_attn example_info \<and> \<not> prop_attn (example_info\<lparr>prop_attn := False\<rparr>)
   \<and> (\<exists>res. ToMeAttention_forward example_attention [[[1], [3]]] (Some [[[1], [2]]]) = Inr res
          \<and> fst res = merge_heads 2 (attn_matmul 1
                (map (map (map softmax))
                   (biased_scores 1 [[[[1], [3]]]] [[[[1], [3]]]] (Some [[[1], [2]]])))
                [[[[1], [3]]]]))
   \<and> biased_scores 1 [[[[1], [3]]]] [[[[1], [3]]]] (Some [[[1], [2]]])
       = [[[[1, 3 + ln 2], [3, 9 + ln 2]]]]
   \<and> biased_scores 1 [[[[1], [3]]]] [[[[1], [3]]]] None = [[[[1, 3], [3, 9]]]]"
proof -
  obtain res where
    f: "ToMeAttention_forward example_attention [[[1], [3]]] (Some [[[1], [2]]]) = Inr res"
    by (simp add: attn_eval)
  have "fst res = merge_heads 2 (attn_matmul 1
                (map (map (map softmax))
                   (biased_scores 1 [[[[1], [3]]]] [[[[1], [3]]]] (Some [[[1], [2]]])))
                [[[[1], [3]]]])"
    using proportional_attention
      [where self = example_attention and y = "[[[1], [3]]]" and size_opt = "Some [[[1], [2]]]"
         and res = res, THEN conjunct2, THEN conjunct2, THEN conjunct1]
      f
    by (simp add: example_attention_def dim_C_def dim_N_def shape_def split_heads_def
                  numeral_2_eq_2)
  moreover have "biased_scores 1 [[[[1], [3]]]] [[[[1], [3]]]] (Some [[[1], [2]]])
       = [[[[1, 3 + ln 2], [3, 9 + ln 2]]]]"
    by (simp add: biased_scores_def dot_def numeral_2_eq_2 upt_rec[of 0] upt_rec[of 1]
                  upt_rec[of "Suc 0"])
  moreover have "biased_scores 1 [[[[1], [3]]]] [[[[1], [3]]]] None = [[[[1, 3], [3, 9]]]]"
    by (simp add: biased_scores_def dot_def numeral_2_eq_2 upt_rec[of 0] upt_rec[of 1]
                  upt_rec[of "Suc 0"])
  ultimately show ?thesis
    using f by (simp add: example_info_def)
qed

subsection \<open>The prologue of the model\<close>


lemma tome_merge_config:
  "config (final_info (tome_merge lib info m r x)) = config info"
  by (auto simp: tome_merge_def final_info_def config_def split: sum.splits prod.splits if_splits)

lemma ToMeBlock_forward_config:
  "config (final_info (ToMeBlock_forward lib self info x)) = config info"
proof (cases "attend_residual self info x")
  case (Inl e)
  then show ?thesis by (simp add: ToMeBlock_forward_def final_info_def)
next
  case (Inr p)
  obtain x1 m where p: "p = (x1, m)" by (cases p)
  show ?thesis
  proof (cases "pop0 (tome_r info)")
    case (Inl e)
    with Inr p show ?thesis by (simp add: ToMeBlock_forward_def final_info_def)
  next
    case (Inr q)
    obtain r rest where q: "q = (r, rest)" by (cases q)
    have c0: "config (info\<lparr>tome_r := rest\<rparr>) = config info"
      by (simp add: config_def)
    have "config (final_info (tome_merge lib (info\<lparr>tome_r := rest\<rparr>) m r x1)) = config info"
      using tome_merge_config[of lib "info\<lparr>tome_r := rest\<rparr>" m r x1] c0 by simp
    with \<open>attend_residual self info x = Inr p\<close> p Inr q c0 show ?thesis
      by (auto simp: ToMeBlock_forward_def final_info_def split: sum.splits prod.splits)
  qed
qed

lemma blocks_forward_config:
  "config (final_info (blocks_forward lib bs info x)) = config info"
proof (induction bs arbitrary: info x)
  case Nil
  then show ?case by (simp add: final_info_def)
next
  case (Cons b bs)
  show ?case
  proof (cases "ToMeBlock_forward lib b info x")
    case (Inl ei)
    then show ?thesis
      using ToMeBlock_forward_config[of lib b info x] by simp
  next
    case (Inr p)
    obtain y info' where p: "p = (y, info')" by (cases p)
    have "config info' = config info"
      using ToMeBlock_forward_config[of lib b info x] Inr p by (simp add: final_info_def)
    with Cons.IH[of info' y] Inr p show ?thesis by simp
  qed
qed

lemma prologue_config:
  "prologue lib self info = Inr info1 \<Longrightarrow> config info1 = config info"
  by (auto simp: prologue_def config_def split: sum.splits)

lemma prologue_cong:
  "config info' = config info \<Longrightarrow>
     prologue lib self info' = (case prologue lib self info of Inl e \<Rightarrow> Inl e
        | Inr i1 \<Rightarrow> Inr (info'\<lparr>tome_r := tome_r i1, tome_size := None, tome_source := None\<rparr>))"
  by (auto simp: prologue_def config_def split: sum.splits)

lemma forward_config:
  "config (final_info (ToMeVisionTransformer_forward lib self info x)) = config info"
proof (cases "prologue lib self info")
  case (Inl e)
  then show ?thesis by (simp add: ToMeVisionTransformer_forward_def final_info_def)
next
  case (Inr info1)
  have "config (final_info (blocks_forward lib (blocks self) info1 (pre_blocks self x))) = config info"
    by (simp add: blocks_forward_config prologue_config[OF Inr])
  with Inr show ?thesis
    by (auto simp: ToMeVisionTransformer_forward_def final_info_def split: sum.splits prod.splits)
qed

lemma ToMeBlock_forward_tl:
  assumes "ToMeBlock_forward lib self info x = Inr (y, info')" "tome_r info = RList sched"
  shows "sched \<noteq> [] \<and> tome_r info' = RList (tl sched)"
proof -
  from assms(1) obtain x1 m where ar: "attend_residual self info x = Inr (x1, m)"
    by (auto simp: ToMeBlock_forward_def split: sum.splits)
  from assms ar obtain r rest where s: "sched = r # rest"
    by (cases sched) (auto simp: ToMeBlock_forward_def split: sum.splits)
  have "tome_r (final_info (tome_merge lib (info\<lparr>tome_r := RList rest\<rparr>) m r x1)) = RList rest"
    by (simp add: tome_merge_keeps_r)
  with assms ar s show ?thesis
    by (auto simp: ToMeBlock_forward_def final_info_def split: sum.splits prod.splits if_splits)
qed

lemma blocks_forward_consumes:
  assumes "blocks_forward lib bs info x = Inr (y, info')" "tome_r info = RList sched"
  shows "length bs \<le> length sched \<and> tome_r info' = RList (drop (length bs) sched)"
  using assms
proof (induction bs arbitrary: info x sched)
  case Nil
  then show ?case by simp
next
  case (Cons b bs)
  from Cons.prems(1) obtain y1 i1 where b: "ToMeBlock_forward lib b info x = Inr (y1, i1)"
    and rest: "blocks_forward lib bs i1 y1 = Inr (y, info')"
    by (auto split: sum.splits)
  from ToMeBlock_forward_tl[OF b Cons.prems(2)] have ne: "sched \<noteq> []" and t: "tome_r i1 = RList (tl sched)"
    by auto
  from Cons.IH[OF rest t] ne show ?case
    by (cases sched) (auto simp: drop_Suc)
qed


text \<open>
  Claim C6. When the planner returns a schedule, \<^verbatim>\<open>ToMeVisionTransformer.forward\<close> first
  writes that schedule and resets size and source, and the block stack starts from this
  dictionary. What the previous call left under "r", "size" and "source" has no effect
  on the result. After the call, returned or raised, a second call derives the same
  schedule and starts from the same dictionary. A call that returns has consumed one
  entry of the schedule per block, in order.
\<close>

theorem forward_prologue:
  fixes lib :: "'m tome_lib"
  assumes plan: "parse_r lib (length (blocks self)) (vit_r self) (total_merge info) = Inr sched"
  shows "prologue lib self info
           = Inr (info\<lparr>tome_r := RList sched, tome_size := None, tome_source := None\<rparr>)
       \<and> ToMeVisionTransformer_forward lib self info x
           = (case blocks_forward lib (blocks self)
                     (info\<lparr>tome_r := RList sched, tome_size := None, tome_source := None\<rparr>)
                     (pre_blocks self x) of
                Inl ei \<Rightarrow> Inl ei
              | Inr (y, info2) \<Rightarrow> Inr (post_blocks self y, info2))
       \<and> ToMeVisionTransformer_forward lib self
            (info\<lparr>tome_r := r0, tome_size := s0, tome_source := t0\<rparr>) x
           = ToMeVisionTransformer_forward lib self info x
       \<and> prologue lib self (final_info (ToMeVisionTransformer_forward lib self info x))
           = prologue lib self info
       \<and> (ToMeVisionTransformer_forward lib self info x = Inr (out, info') \<longrightarrow>
            length (blocks self) \<le> length sched
            \<and> tome_r info' = RList (drop (length (blocks self)) sched))"
proof -
  let ?i1 = "info\<lparr>tome_r := RList sched, tome_size := None, tome_source := None\<rparr>"
  have p: "prologue lib self info = Inr ?i1"
    using plan by (simp add: prologue_def)
  have f: "ToMeVisionTransformer_forward lib self info x
           = (case blocks_forward lib (blocks self) ?i1 (pre_blocks self x) of
                Inl ei \<Rightarrow> Inl ei
              | Inr (y, info2) \<Rightarrow> Inr (post_blocks self y, info2))"
    using p by (simp add: ToMeVisionTransformer_forward_def)
  have p0: "prologue lib self (info\<lparr>tome_r := r0, tome_size := s0, tome_source := t0\<rparr>) = Inr ?i1"
    using plan by (simp add: prologue_def)
  have g: "ToMeVisionTransformer_forward lib self
            (info\<lparr>tome_r := r0, tome_size := s0, tome_source := t0\<rparr>) x
           = ToMeVisionTransformer_forward lib self info x"
    unfolding f using p0 by (simp add: ToMeVisionTransformer_forward_def)
  let ?fin = "final_info (ToMeVisionTransformer_forward lib self info x)"
  have cf: "config ?fin = config info"
    by (rule forward_config)
  have fin1: "config (final_info (blocks_forward lib (blocks self) ?i1 (pre_blocks self x))) = config ?i1"
    by (rule blocks_forward_config)
  have "?fin\<lparr>tome_r := RList sched, tome_size := None, tome_source := None\<rparr> = ?i1"
    using cf by (cases ?fin, cases info) (simp add: config_def)
  moreover have "parse_r lib (length (blocks self)) (vit_r self) (total_merge ?fin) = Inr sched"
    using cf plan by (simp add: config_def)
  ultimately have again: "prologue lib self ?fin = prologue lib self info"
    using p by (simp add: prologue_def)
  have cons: "length (blocks self) \<le> length sched
            \<and> tome_r info' = RList (drop (length (blocks self)) sched)"
    if "ToMeVisionTransformer_forward lib self info x = Inr (out, info')"
  proof -
    from that f obtain y where
      "blocks_forward lib (blocks self) ?i1 (pre_blocks self x) = Inr (y, info')"
      by (auto split: sum.splits)
    from blocks_forward_consumes[OF this, of sched] show ?thesis by simp
  qed
  show ?thesis
    using p f g again cons by blast
qed


lemmas block_eval =
  ToMeBlock_forward_def attend_residual_def mlp_residual_def ToMeBlock_drop_path1_def
  ToMeBlock_drop_path2_def tensor_add_def example_block_def

lemma example_forward:
  "ToMeVisionTransformer_forward (spec_lib dot example_planner)
      (example_vit [example_block, example_block] (RInt 0)) example_info [[[1]]]
     = Inr ([[[16]]], example_info\<lparr>tome_r := RList []\<rparr>)"
  by (simp add: ToMeVisionTransformer_forward_def prologue_def example_vit_def spec_lib_def
      example_planner_def example_info_def block_eval attn_eval numeral_2_eq_2)

theorem forward_prologue_witness:
  "parse_r (spec_lib dot example_planner)
      (length (blocks (example_vit [example_block, example_block] (RInt 0))))
      (vit_r (example_vit [example_block, example_block] (RInt 0))) (total_merge example_info)
     = Inr [0, 0]
   \<and> ToMeVisionTransformer_forward (spec_lib dot example_planner)
        (example_vit [example_block, example_block] (RInt 0))
        (example_info\<lparr>tome_r := RList [5], tome_size := Some [[[7]]], tome_source := None\<rparr>)
        [[[1]]]
      = Inr ([[[16]]], example_info\<lparr>tome_r := RList []\<rparr>)
   \<and> prologue (spec_lib dot example_planner)
        (example_vit [example_block, example_block] (RInt 0))
        (example_info\<lparr>tome_r := RList []\<rparr>)
      = Inr (example_info\<lparr>tome_r := RList [0, 0]\<rparr>)"
proof -
  have plan: "parse_r (spec_lib dot example_planner)
      (length (blocks (example_vit [example_block, example_block] (RInt 0))))
      (vit_r (example_vit [example_block, example_block] (RInt 0))) (total_merge example_info)
     = Inr [0, 0]"
    by (simp add: spec_lib_def example_planner_def example_vit_def example_info_def
        numeral_2_eq_2)
  note fp = forward_prologue[OF plan, where x = "[[[1]]]" and ?r0.0 = "RList [5]"
      and ?s0.0 = "Some [[[7]]]" and ?t0.0 = None]
  from fp have a: "ToMeVisionTransformer_forward (spec_lib dot example_planner)
        (example_vit [example_block, example_block] (RInt 0))
        (example_info\<lparr>tome_r := RList [5], tome_size := Some [[[7]]], tome_source := None\<rparr>)
        [[[1]]]
      = Inr ([[[16]]], example_info\<lparr>tome_r := RList []\<rparr>)"
    by (simp add: example_forward)
  from fp have b: "prologue (spec_lib dot example_planner)
        (example_vit [example_block, example_block] (RInt 0))
        (example_info\<lparr>tome_r := RList []\<rparr>)
      = Inr (example_info\<lparr>tome_r := RList [0, 0]\<rparr>)"
    by (simp add: example_forward final_info_def) (simp add: example_info_def)
  show ?thesis
    using plan a b by simp
qed

subsection \<open>A schedule of zeros\<close>


lemma ToMeAttention_forward_tensor_metric:
  "ToMeAttention_forward a y s = Inr (out, metric) \<Longrightarrow> \<exists>t. metric ''metric'' = Some (PyTensor t)"
  unfolding ToMeAttention_forward_def Let_def by (auto split: if_splits)

lemma zero_block_returns:
  assumes "ToMeBlock_forward lib b info x = Inr (y, info')"
      and "tome_r info = RList (r # rest)" "r \<le> 0" "tome_size info = None"
  shows "Block_forward b x = Inr y \<and> info' = info\<lparr>tome_r := RList rest\<rparr>"
  using assms
  by (auto simp: ToMeBlock_forward_def attend_residual_def Block_forward_def Let_def
      split: sum.splits prod.splits option.splits if_splits)

lemma zero_block_wired:
  assumes "attn b = ToMeAttention_forward a"
      and "tome_r info = RList (r # rest)" "r \<le> 0" "tome_size info = None"
  shows "outcome (ToMeBlock_forward lib b info x) = Block_forward b x"
  using assms ToMeAttention_forward_tensor_metric[of a "norm1 b x" None]
  by (auto simp: ToMeBlock_forward_def attend_residual_def Block_forward_def Let_def outcome_def
      split: sum.splits prod.splits option.splits if_splits)

lemma zero_blocks_return:
  assumes "blocks_forward lib bs info x = Inr (y, info')"
      and "tome_r info = RList sched" "list_all (\<lambda>r. r \<le> 0) sched" "tome_size info = None"
  shows "plain_blocks_forward bs x = Inr y
       \<and> info' = info\<lparr>tome_r := RList (drop (length bs) sched)\<rparr>"
  using assms
proof (induction bs arbitrary: info x sched)
  case Nil
  then show ?case by simp
next
  case (Cons b bs)
  from Cons.prems(1) obtain y1 i1 where b: "ToMeBlock_forward lib b info x = Inr (y1, i1)"
    and rest: "blocks_forward lib bs i1 y1 = Inr (y, info')"
    by (auto split: sum.splits)
  from ToMeBlock_forward_tl[OF b Cons.prems(2)] obtain r sched' where s: "sched = r # sched'"
    by (cases sched) auto
  with Cons.prems(3) have r: "r \<le> 0" and z: "list_all (\<lambda>r. r \<le> 0) sched'"
    by auto
  from zero_block_returns[OF b Cons.prems(2)[unfolded s] r Cons.prems(4)]
  have pb: "Block_forward b x = Inr y1" and i1: "i1 = info\<lparr>tome_r := RList sched'\<rparr>"
    by auto
  have "plain_blocks_forward bs y1 = Inr y
       \<and> info' = i1\<lparr>tome_r := RList (drop (length bs) sched')\<rparr>"
    using Cons.IH[OF rest _ z] i1 Cons.prems(4) by simp
  then show ?case
    using pb i1 s by simp
qed

lemma zero_blocks_wired:
  assumes "list_all (\<lambda>b. \<exists>a. attn b = ToMeAttention_forward a) bs"
      and "tome_r info = RList sched" "list_all (\<lambda>r. r \<le> 0) sched" "tome_size info = None"
      and "length bs \<le> length sched"
  shows "outcome (blocks_forward lib bs info x) = plain_blocks_forward bs x"
  using assms
proof (induction bs arbitrary: info x sched)
  case Nil
  then show ?case by (simp add: outcome_def)
next
  case (Cons b bs)
  from Cons.prems(5) obtain r sched' where s: "sched = r # sched'"
    by (cases sched) auto
  with Cons.prems(3) have r: "r \<le> 0" and z: "list_all (\<lambda>r. r \<le> 0) sched'"
    by auto
  from Cons.prems(1) obtain a where a: "attn b = ToMeAttention_forward a"
    and w: "list_all (\<lambda>b. \<exists>a. attn b = ToMeAttention_forward a) bs"
    by auto
  note ob = zero_block_wired[OF a Cons.prems(2)[unfolded s] r Cons.prems(4), of lib x]
  show ?case
  proof (cases "ToMeBlock_forward lib b info x")
    case (Inl ei)
    with ob have "Block_forward b x = Inl (fst ei)"
      by (simp add: outcome_def split: prod.splits)
    with Inl show ?thesis by (simp add: outcome_def split: prod.splits)
  next
    case (Inr p)
    obtain y1 i1 where p: "p = (y1, i1)" by (cases p)
    from zero_block_returns[OF Inr[unfolded p] Cons.prems(2)[unfolded s] r Cons.prems(4)]
    have pb: "Block_forward b x = Inr y1" and i1: "i1 = info\<lparr>tome_r := RList sched'\<rparr>"
      by auto
    have "outcome (blocks_forward lib bs i1 y1) = plain_blocks_forward bs y1"
      using Cons.IH[OF w _ z, of i1 y1] i1 Cons.prems(4,5) s by simp
    with Inr p pb show ?thesis by simp
  qed
qed

lemma size_fits_ones: "size_fits y (Some (ones_like y))"
  by (simp add: size_fits_def ones_like_def list_all_length comp_def)

lemma size_fits_None: "size_fits y None"
  by (simp add: size_fits_def)

lemma attn_logits_ones:
  assumes "shape q0 = map (map f) y"
  shows "attn_logits sc (split_heads 0 H d q0) (split_heads 1 H d q0) (Some (ones_like y))
       = attn_logits sc (split_heads 0 H d q0) (split_heads 1 H d q0) None"
proof -
  note yl = shape_lengths[OF assms]
  have 1: "length (qk_scores sc (split_heads 0 H d q0) (split_heads 1 H d q0)) = length y"
    by (simp add: qk_scores_def split_heads_lengths yl)
  have 2: "length (qk_scores sc (split_heads 0 H d q0) (split_heads 1 H d q0) ! b ! h ! i) = length (y ! b)"
    if "b < length y" "h < length (qk_scores sc (split_heads 0 H d q0) (split_heads 1 H d q0) ! b)"
       "i < length (qk_scores sc (split_heads 0 H d q0) (split_heads 1 H d q0) ! b ! h)" for b h i
  proof -
    have b: "b < length q0" using that(1) yl by simp
    have h: "h < H" using that(2) b by (simp add: qk_scores_def split_heads_lengths)
    have i: "i < length (q0 ! b)" using that(3) b h by (simp add: qk_scores_def split_heads_lengths)
    show ?thesis using b h i yl that(1) by (simp add: qk_scores_def split_heads_lengths)
  qed
  show ?thesis
    unfolding attn_logits_def option.case
    by (rule add_log_size_ones[OF 1 2])
qed

lemma ToMeAttention_forward_ones:
  "ToMeAttention_forward a y (Some (ones_like y)) = ToMeAttention_forward a y None"
proof (cases "shape (qkv a y) = map (map (\<lambda>t. 3 * num_heads a * (dim_C y div num_heads a))) y")
  case True
  show ?thesis
    unfolding ToMeAttention_forward_def Let_def
    by (simp add: attn_logits_ones[OF True] size_fits_ones size_fits_None del: One_nat_def)
next
  case False
  then show ?thesis
    unfolding ToMeAttention_forward_def Let_def by simp
qed

text \<open>
  Claim C4. When every entry of the schedule the planner returns is zero (or negative), a
  forward pass that returns gives the output of the pass with merging disabled, leaves
  size and source uninitialised as the prologue set them, and changes nothing else in the
  dictionary but the consumed schedule. For a model whose blocks are wired to
  \<^verbatim>\<open>ToMeAttention\<close>, and a schedule with an entry for every block, the patched pass
  returns or raises exactly as the pass with merging disabled does. The size stays
  uninitialised, so no bias is added; and a size of all ones would change nothing either:
  attention with a size of ones is attention without a size, since \<open>ln 1 = 0\<close>.
\<close>

theorem zero_schedule_is_plain_forward:
  fixes lib :: "'m tome_lib"
  assumes plan: "parse_r lib (length (blocks self)) (vit_r self) (total_merge info) = Inr sched"
      and zero: "list_all (\<lambda>r. r \<le> 0) sched"
  shows "(ToMeVisionTransformer_forward lib self info x = Inr (out, info') \<longrightarrow>
            VisionTransformer_forward self x = Inr out
          \<and> tome_size info' = None \<and> tome_source info' = None
          \<and> tome_r info' = RList (drop (length (blocks self)) sched)
          \<and> config info' = config info)
       \<and> (list_all (\<lambda>b. \<exists>a. attn b = ToMeAttention_forward a) (blocks self)
            \<and> length (blocks self) \<le> length sched \<longrightarrow>
            outcome (ToMeVisionTransformer_forward lib self info x)
              = VisionTransformer_forward self x)
       \<and> ToMeAttention_forward a y (Some (ones_like y)) = ToMeAttention_forward a y None"
proof (intro conjI impI)
  let ?i1 = "info\<lparr>tome_r := RList sched, tome_size := None, tome_source := None\<rparr>"
  have p: "prologue lib self info = Inr ?i1"
    using plan by (simp add: prologue_def)
  {
    assume f: "ToMeVisionTransformer_forward lib self info x = Inr (out, info')"
    then obtain z where bf: "blocks_forward lib (blocks self) ?i1 (pre_blocks self x) = Inr (z, info')"
      and out: "out = post_blocks self z"
      using p by (auto simp: ToMeVisionTransformer_forward_def split: sum.splits)
    from zero_blocks_return[OF bf _ zero, of ] 
    have pl: "plain_blocks_forward (blocks self) (pre_blocks self x) = Inr z"
      and i': "info' = ?i1\<lparr>tome_r := RList (drop (length (blocks self)) sched)\<rparr>"
      by auto
    show "VisionTransformer_forward self x = Inr out"
      using pl out by (simp add: VisionTransformer_forward_def)
    show "tome_size info' = None" "tome_source info' = None"
      "tome_r info' = RList (drop (length (blocks self)) sched)" "config info' = config info"
      using i' by (simp_all add: config_def)
  }
  {
    assume w: "list_all (\<lambda>b. \<exists>a. attn b = ToMeAttention_forward a) (blocks self)
            \<and> length (blocks self) \<le> length sched"
    have "outcome (blocks_forward lib (blocks self) ?i1 (pre_blocks self x))
            = plain_blocks_forward (blocks self) (pre_blocks self x)"
      using zero_blocks_wired[of "blocks self" ?i1 sched lib "pre_blocks self x"] w zero by simp
    then show "outcome (ToMeVisionTransformer_forward lib self info x)
              = VisionTransformer_forward self x"
      using p
      by (auto simp: ToMeVisionTransformer_forward_def VisionTransformer_forward_def outcome_def
          split: sum.splits prod.splits)
  }
  show "ToMeAttention_forward a y (Some (ones_like y)) = ToMeAttention_forward a y None"
    by (rule ToMeAttention_forward_ones)
qed


theorem zero_schedule_is_plain_forward_witness:
  "parse_r (spec_lib dot example_planner)
      (length (blocks (example_vit [example_block, example_block] (RInt 0))))
      (vit_r (example_vit [example_block, example_block] (RInt 0))) (total_merge example_info)
     = Inr [0, 0]
   \<and> list_all (\<lambda>r. r \<le> 0) [0, 0 :: int]
   \<and> ToMeVisionTransformer_forward (spec_lib dot example_planner)
        (example_vit [example_block, example_block] (RInt 0)) example_info [[[1]]]
      = Inr ([[[16]]], example_info\<lparr>tome_r := RList []\<rparr>)
   \<and> VisionTransformer_forward (example_vit [example_block, example_block] (RInt 0)) [[[1]]]
      = Inr [[[16]]]"
proof -
  have plan: "parse_r (spec_lib dot example_planner)
      (length (blocks (example_vit [example_block, example_block] (RInt 0))))
      (vit_r (example_vit [example_block, example_block] (RInt 0))) (total_merge example_info)
     = Inr [0, 0]"
    by (simp add: spec_lib_def example_planner_def example_vit_def example_info_def
        numeral_2_eq_2)
  have zero: "list_all (\<lambda>r. r \<le> 0) [0, 0 :: int]"
    by simp
  from zero_schedule_is_plain_forward[OF plan zero, where x = "[[[1]]]" and out = "[[[16]]]"
      and info' = "example_info\<lparr>tome_r := RList []\<rparr>"]
  have "VisionTransformer_forward (example_vit [example_block, example_block] (RInt 0)) [[[1]]]
      = Inr [[[16]]]"
    by (simp add: example_forward)
  then show ?thesis
    using plan zero example_forward by simp
qed

subsection \<open>One dictionary for the model and its blocks\<close>

lemma dicts_store_dict [simp]:
  "dicts (store_dict h a info) a' = (if a' = a then Some info else dicts h a')"
  by (simp add: store_dict_def)

lemma next_addr_store_dict [simp]: "next_addr (store_dict h a info) = next_addr h"
  by (simp add: store_dict_def)

lemma store_dict_twice [simp]: "store_dict (store_dict h a i) a j = store_dict h a j"
  by (cases h) (simp add: store_dict_def)

lemma heap_write_same:
  assumes "dicts h a = Some info"
  shows "store_dict h a info = h"
proof -
  have "(dicts h)(a \<mapsto> info) = dicts h"
    using assms by (rule fun_upd_idem)
  then show ?thesis by (simp add: store_dict_def)
qed

lemma ToMeBlock_forward_at_shared:
  assumes "dicts h a = Some info"
  shows "ToMeBlock_forward_at lib b (Some a) h x
           = (outcome (ToMeBlock_forward lib b info x),
              store_dict h a (final_info (ToMeBlock_forward lib b info x)))"
proof (cases "ToMeBlock_forward lib b info x")
  case (Inl ei)
  obtain e info' where "ei = (e, info')" by (cases ei)
  with Inl assms show ?thesis
    by (simp add: ToMeBlock_forward_at_def outcome_def final_info_def)
next
  case (Inr p)
  obtain y info' where "p = (y, info')" by (cases p)
  with Inr assms show ?thesis
    by (simp add: ToMeBlock_forward_at_def outcome_def final_info_def)
qed

lemma blocks_forward_at_shared:
  assumes "dicts h a = Some info"
      and "list_all (\<lambda>m. fst m = ToMeBlock \<and> snd (snd m) = Some a) ms"
  shows "blocks_forward_at lib ms h x
           = (outcome (blocks_forward lib (map (\<lambda>m. fst (snd m)) ms) info x),
              store_dict h a (final_info (blocks_forward lib (map (\<lambda>m. fst (snd m)) ms) info x)))"
  using assms
proof (induction ms arbitrary: h info x)
  case Nil
  have o: "outcome (blocks_forward lib (map (\<lambda>m. fst (snd m)) []) info x) = Inr x"
    by (simp add: outcome_def)
  have f: "final_info (blocks_forward lib (map (\<lambda>m. fst (snd m)) []) info x) = info"
    by (simp add: final_info_def)
  show ?case
    unfolding o f heap_write_same[OF Nil.prems(1)] by simp
next
  case (Cons m ms)
  obtain c b ref where m: "m = (c, b, ref)" by (cases m)
  with Cons.prems(2) have c: "c = ToMeBlock" and ref: "ref = Some a"
    and rest: "list_all (\<lambda>m. fst m = ToMeBlock \<and> snd (snd m) = Some a) ms"
    by auto
  note one = ToMeBlock_forward_at_shared[OF Cons.prems(1), of lib b x]
  show ?case
  proof (cases "ToMeBlock_forward lib b info x")
    case (Inl ei)
    obtain e info' where "ei = (e, info')" by (cases ei)
    with Inl show ?thesis
      using one m c ref by (simp add: outcome_def final_info_def)
  next
    case (Inr p)
    obtain y info' where p: "p = (y, info')" by (cases p)
    let ?h' = "store_dict h a info'"
    have d: "dicts ?h' a = Some info'" by simp
    have "blocks_forward_at lib ms ?h' y
           = (outcome (blocks_forward lib (map (\<lambda>m. fst (snd m)) ms) info' y),
              store_dict ?h' a
                (final_info (blocks_forward lib (map (\<lambda>m. fst (snd m)) ms) info' y)))"
      by (rule Cons.IH[OF d rest])
    then show ?thesis
      using one m c ref Inr p by (simp add: outcome_def final_info_def)
  qed
qed

lemma model_blocks_patch:
  "list_all (\<lambda>m. fst m = ToMeBlock \<and> snd (snd m) = Some a) (model_blocks (map (patch_module a) ms))"
  by (induction ms rule: model_blocks.induct) auto

lemma patch_module_blocks:
  "BlockModule c b ref \<in> set (map (patch_module a) ms) \<Longrightarrow> c = ToMeBlock \<and> ref = Some a"
proof -
  assume "BlockModule c b ref \<in> set (map (patch_module a) ms)"
  then obtain m where pm: "patch_module a m = BlockModule c b ref" by auto
  show ?thesis using pm by (cases m) auto
qed


lemma block_call_shared:
  assumes "dicts h a = Some info" "fst m = ToMeBlock" "snd (snd m) = Some a"
  shows "block_call lib m h x
           = (outcome (ToMeBlock_forward lib (fst (snd m)) info x),
              store_dict h a (final_info (ToMeBlock_forward lib (fst (snd m)) info x)))"
proof -
  obtain c b ref where m: "m = (c, b, ref)" by (cases m)
  with assms show ?thesis
    using ToMeBlock_forward_at_shared[OF assms(1), of lib b x] by simp
qed

lemma model_blocks_set:
  "(c, b, ref) \<in> set (model_blocks ms) \<longleftrightarrow> BlockModule c b ref \<in> set ms"
  by (induction ms rule: model_blocks.induct) auto

text \<open>
  Claim C10. \<^verbatim>\<open>tome_apply_patch\<close> allocates one dictionary; afterwards the model's
  \<^verbatim>\<open>_tome_info\<close> and the \<^verbatim>\<open>_tome_info\<close> of every transformer block among the model's modules
  are references to that one dictionary, and every block is a \<^verbatim>\<open>ToMeBlock\<close>. Hence the
  forward of every block reads the dictionary the model refers to, in whatever state it
  is (a configuration written through the model is what the block runs on), and leaves
  its writes there; a block that returns has removed the first schedule entry from the
  dictionary the model and all other blocks refer to; and the block stack on the store
  is the block stack threading one dictionary from block to block.
\<close>

theorem tome_apply_patch_shares_dictionary:
  fixes lib :: "'m tome_lib"
  assumes patch: "tome_apply_patch model h ts pa = (model', h')"
  shows "\<exists>a info0.
           model_tome_info model' = Some a \<and> dicts h' a = Some info0
         \<and> (\<forall>c b ref. BlockModule c b ref \<in> set (model_modules model')
               \<longrightarrow> c = ToMeBlock \<and> ref = Some a)
         \<and> (\<forall>m \<in> set (model_blocks (model_modules model')). \<forall>h1 info x.
               dicts h1 a = Some info \<longrightarrow>
                 block_call lib m h1 x
                   = (outcome (ToMeBlock_forward lib (fst (snd m)) info x),
                      store_dict h1 a (final_info (ToMeBlock_forward lib (fst (snd m)) info x))))
         \<and> (\<forall>m \<in> set (model_blocks (model_modules model')). \<forall>h1 info sched x y h2.
               dicts h1 a = Some info \<and> tome_r info = RList sched
               \<and> block_call lib m h1 x = (Inr y, h2) \<longrightarrow>
                 sched \<noteq> [] \<and> (\<exists>info'. dicts h2 a = Some info' \<and> tome_r info' = RList (tl sched)))
         \<and> (\<forall>h1 info x.
               dicts h1 a = Some info \<longrightarrow>
                 blocks_forward_at lib (model_blocks (model_modules model')) h1 x
                   = (outcome (blocks_forward lib
                         (map (\<lambda>m. fst (snd m)) (model_blocks (model_modules model'))) info x),
                      store_dict h1 a (final_info (blocks_forward lib
                         (map (\<lambda>m. fst (snd m)) (model_blocks (model_modules model'))) info x))))"
proof -
  define a where "a = next_addr h"
  from patch have mods: "model_modules model' = map (patch_module a) (model_modules model)"
    and ref: "model_tome_info model' = Some a"
    and ex: "\<exists>info0. dicts h' a = Some info0"
    by (auto simp: tome_apply_patch_def Let_def a_def)
  from ex obtain info0 where info0: "dicts h' a = Some info0" ..
  have all: "list_all (\<lambda>m. fst m = ToMeBlock \<and> snd (snd m) = Some a)
               (model_blocks (model_modules model'))"
    unfolding mods by (rule model_blocks_patch)
  have A: "c = ToMeBlock \<and> ref = Some a"
    if "BlockModule c b ref \<in> set (model_modules model')" for c b ref
    using that unfolding mods by (rule patch_module_blocks)
  have B: "block_call lib m h1 x
             = (outcome (ToMeBlock_forward lib (fst (snd m)) info x),
                store_dict h1 a (final_info (ToMeBlock_forward lib (fst (snd m)) info x)))"
    if "m \<in> set (model_blocks (model_modules model'))" "dicts h1 a = Some info"
    for m h1 info x
    using that all by (intro block_call_shared) (auto simp: list_all_iff)
  have C: "sched \<noteq> [] \<and> (\<exists>info'. dicts h2 a = Some info' \<and> tome_r info' = RList (tl sched))"
    if m: "m \<in> set (model_blocks (model_modules model'))" and d: "dicts h1 a = Some info"
      and r: "tome_r info = RList sched" and call: "block_call lib m h1 x = (Inr y, h2)"
    for m h1 info sched x y h2
  proof -
    from B[OF m d, of x] call
    have o: "outcome (ToMeBlock_forward lib (fst (snd m)) info x) = Inr y"
      and h2: "h2 = store_dict h1 a (final_info (ToMeBlock_forward lib (fst (snd m)) info x))"
      by auto
    from o obtain info' where f: "ToMeBlock_forward lib (fst (snd m)) info x = Inr (y, info')"
      by (auto simp: outcome_def split: sum.splits prod.splits)
    from ToMeBlock_forward_tl[OF f r] h2 f show ?thesis
      by (simp add: final_info_def)
  qed
  have D: "blocks_forward_at lib (model_blocks (model_modules model')) h1 x
                   = (outcome (blocks_forward lib
                         (map (\<lambda>m. fst (snd m)) (model_blocks (model_modules model'))) info x),
                      store_dict h1 a (final_info (blocks_forward lib
                         (map (\<lambda>m. fst (snd m)) (model_blocks (model_modules model'))) info x)))"
    if "dicts h1 a = Some info" for h1 info x
    using that all by (rule blocks_forward_at_shared)
  show ?thesis
    using ref info0 A B C D by blast
qed


theorem tome_apply_patch_shares_dictionary_witness:
  "model_tome_info (fst (tome_apply_patch example_model empty_heap True True)) = Some 0
   \<and> model_modules (fst (tome_apply_patch example_model empty_heap True True))
       = [OtherModule, BlockModule ToMeBlock example_block (Some 0),
          AttentionModule ToMeAttention, BlockModule ToMeBlock example_block (Some 0),
          AttentionModule ToMeAttention]
   \<and> dicts (snd (tome_apply_patch example_model empty_heap True True)) 0
       = Some (example_info\<lparr>class_token := True\<rparr>)"
  using tome_apply_patch_shares_dictionary
    [of example_model empty_heap True True
        "fst (tome_apply_patch example_model empty_heap True True)"
        "snd (tome_apply_patch example_model empty_heap True True)"]
  by (simp add: tome_apply_patch_def example_model_def empty_heap_def example_info_def Let_def)

subsection \<open>Forward passes on the shared dictionary\<close>

lemma forward_depends_on_config:
  assumes "config info' = config info"
  shows "outcome (ToMeVisionTransformer_forward lib self info' x)
           = outcome (ToMeVisionTransformer_forward lib self info x)"
proof (cases "parse_r lib (length (blocks self)) (vit_r self) (total_merge info)")
  case (Inl e)
  moreover have "total_merge info' = total_merge info"
    using assms by (simp add: config_def)
  ultimately show ?thesis
    by (simp add: ToMeVisionTransformer_forward_def prologue_def outcome_def)
next
  case (Inr sched)
  have tm: "total_merge info' = total_merge info"
    using assms by (simp add: config_def)
  have "info'\<lparr>tome_r := RList sched, tome_size := None, tome_source := None\<rparr>
          = info\<lparr>tome_r := RList sched, tome_size := None, tome_source := None\<rparr>"
    using assms by (cases info, cases info') (simp add: config_def)
  with Inr tm show ?thesis
    by (simp add: ToMeVisionTransformer_forward_def prologue_def)
qed

lemma forward_at_shared:
  fixes lib :: "'m tome_lib"
  assumes ref: "model_tome_info M = Some a" and d: "dicts h a = Some info"
      and r: "model_r M = Some r"
      and all: "list_all (\<lambda>m. fst m = ToMeBlock \<and> snd (snd m) = Some a)
                  (model_blocks (model_modules M))"
  shows "ToMeVisionTransformer_forward_at lib M h x
           = (outcome (ToMeVisionTransformer_forward lib (vit_of M r) info x),
              store_dict h a (final_info (ToMeVisionTransformer_forward lib (vit_of M r) info x)))"
proof (cases "parse_r lib (length (model_blocks (model_modules M))) r (total_merge info)")
  case (Inl e)
  then have "prologue_at lib M h = Inl e" "prologue lib (vit_of M r) info = Inl e"
    using ref d r by (simp_all add: prologue_at_def prologue_def vit_of_def)
  then show ?thesis
    using heap_write_same[OF d]
    by (simp add: ToMeVisionTransformer_forward_at_def ToMeVisionTransformer_forward_def
        outcome_def final_info_def)
next
  case (Inr sched)
  let ?i1 = "info\<lparr>tome_r := RList sched, tome_size := None, tome_source := None\<rparr>"
  let ?h1 = "store_dict h a ?i1"
  let ?bs = "map (\<lambda>m. fst (snd m)) (model_blocks (model_modules M))"
  have pa: "prologue_at lib M h = Inr ?h1"
    using Inr ref d r by (simp add: prologue_at_def)
  have p: "prologue lib (vit_of M r) info = Inr ?i1"
    using Inr by (simp add: prologue_def vit_of_def)
  have d1: "dicts ?h1 a = Some ?i1" by simp
  note bf = blocks_forward_at_shared[OF d1 all, of lib "model_pre M x"]
  show ?thesis
  proof (cases "blocks_forward lib ?bs ?i1 (model_pre M x)")
    case (Inl ei)
    obtain e i2 where "ei = (e, i2)" by (cases ei)
    with Inl bf pa p show ?thesis
      by (simp add: ToMeVisionTransformer_forward_at_def ToMeVisionTransformer_forward_def
          outcome_def final_info_def vit_of_def)
  next
    case (Inr q)
    obtain y i2 where "q = (y, i2)" by (cases q)
    with Inr bf pa p show ?thesis
      by (simp add: ToMeVisionTransformer_forward_at_def ToMeVisionTransformer_forward_def
          outcome_def final_info_def vit_of_def)
  qed
qed

lemma put_pass_same [simp]: "put_pass passes p v p = Some v"
  by (simp add: put_pass_def)

lemma put_pass_other [simp]: "q \<noteq> p \<Longrightarrow> put_pass passes p v q = passes q"
  by (simp add: put_pass_def)

lemma put_pass_twice [simp]: "put_pass (put_pass passes p v) p w = put_pass passes p w"
  by (simp add: put_pass_def)

lemma run_steps_alone:
  "run_events lib M (replicate (Suc (length ms)) (Step p)) (h, put_pass passes p (Running ms y))
     = (snd (blocks_forward_at lib ms h y),
        put_pass passes p (case fst (blocks_forward_at lib ms h y) of
                        Inl e \<Rightarrow> Raised e
                      | Inr z \<Rightarrow> Returned (model_post M z)))"
proof (induction ms arbitrary: h y)
  case Nil
  show ?case by simp
next
  case (Cons m ms)
  obtain res h' where bc: "block_call lib m h y = (res, h')" by (cases "block_call lib m h y")
  show ?case
  proof (cases res)
    case (Inl e)
    have idle: "run_events lib M (replicate n (Step p)) (h', put_pass passes p (Raised e))
                  = (h', put_pass passes p (Raised e))" for n
      by (induction n) simp_all
    from Inl bc idle[of "Suc (length ms)"] show ?thesis
      by simp
  next
    case (Inr y')
    from Cons.IH[of h' y'] Inr bc show ?thesis
      by simp
  qed
qed

lemma example_attention_one_token:
  "ToMeAttention_forward example_attention [[[v]]] None
     = Inr ([[[v]]], (\<lambda>key. if key = ''metric'' then Some (PyTensor [[[v]]]) else None))"
  by (simp add: attn_eval cong: if_cong)

lemma example_block_zero:
  assumes "tome_r info = RList (r # rest)" "r \<le> 0" "tome_size info = None"
  shows "ToMeBlock_forward lib example_block info [[[v]]]
           = Inr ([[[4 * v]]], info\<lparr>tome_r := RList rest\<rparr>)"
  using assms
  by (simp add: ToMeBlock_forward_def attend_residual_def mlp_residual_def
      ToMeBlock_drop_path1_def ToMeBlock_drop_path2_def tensor_add_def shape_def
      example_block_def example_attention_one_token)

lemma example_block_empty:
  assumes "tome_r info = RList []" "tome_size info = None"
  shows "ToMeBlock_forward lib example_block info [[[v]]] = Inl (IndexError, info)"
  using assms
  by (simp add: ToMeBlock_forward_def attend_residual_def mlp_residual_def
      ToMeBlock_drop_path1_def ToMeBlock_drop_path2_def tensor_add_def shape_def
      example_block_def example_attention_one_token)


lemma patched_example:
  "fst (tome_apply_patch example_model empty_heap True True)
     = example_model\<lparr>model_is_tome := True, model_r := Some (RInt 0), model_tome_info := Some 0,
         model_modules := [OtherModule, BlockModule ToMeBlock example_block (Some 0),
          AttentionModule ToMeAttention, BlockModule ToMeBlock example_block (Some 0),
          AttentionModule ToMeAttention]\<rparr>"
  "snd (tome_apply_patch example_model empty_heap True True)
     = store_dict (empty_heap\<lparr>next_addr := 1\<rparr>) 0 (example_info\<lparr>class_token := True\<rparr>)"
  by (simp_all add: tome_apply_patch_def example_model_def empty_heap_def example_info_def Let_def store_dict_def)


lemma example_block_zero_literal:
  "ToMeBlock_forward lib example_block
      \<lparr>tome_r = RList (0 # rest), tome_size = None, tome_source = s, total_merge = t,
       trace_source = ts, prop_attn = pa, class_token = ct, distill_token = dt\<rparr> [[[v]]]
     = Inr ([[[4 * v]]],
        \<lparr>tome_r = RList rest, tome_size = None, tome_source = s, total_merge = t,
         trace_source = ts, prop_attn = pa, class_token = ct, distill_token = dt\<rparr>)"
  using example_block_zero[of "\<lparr>tome_r = RList (0 # rest), tome_size = None, tome_source = s,
       total_merge = t, trace_source = ts, prop_attn = pa, class_token = ct,
       distill_token = dt\<rparr>" 0 rest lib v]
  by simp

lemma example_block_empty_literal:
  "ToMeBlock_forward lib example_block
      \<lparr>tome_r = RList [], tome_size = None, tome_source = s, total_merge = t,
       trace_source = ts, prop_attn = pa, class_token = ct, distill_token = dt\<rparr> [[[v]]]
     = Inl (IndexError,
        \<lparr>tome_r = RList [], tome_size = None, tome_source = s, total_merge = t,
         trace_source = ts, prop_attn = pa, class_token = ct, distill_token = dt\<rparr>)"
  using example_block_empty[of "\<lparr>tome_r = RList [], tome_size = None, tome_source = s,
       total_merge = t, trace_source = ts, prop_attn = pa, class_token = ct,
       distill_token = dt\<rparr>" lib v]
  by simp

lemma patched_example_fields:
  "model_tome_info (fst (tome_apply_patch example_model empty_heap True True)) = Some 0"
  "model_r (fst (tome_apply_patch example_model empty_heap True True)) = Some (RInt 0)"
  "model_blocks (model_modules (fst (tome_apply_patch example_model empty_heap True True)))
     = [(ToMeBlock, example_block, Some 0), (ToMeBlock, example_block, Some 0)]"
  "model_pre (fst (tome_apply_patch example_model empty_heap True True)) = (\<lambda>y. y)"
  "model_post (fst (tome_apply_patch example_model empty_heap True True)) = (\<lambda>y. y)"
  "dicts (snd (tome_apply_patch example_model empty_heap True True)) 0
     = Some \<lparr>tome_r = RInt 0, tome_size = None, tome_source = None, total_merge = None,
             trace_source = True, prop_attn = True, class_token = True,
             distill_token = False\<rparr>"
  by (simp_all add: patched_example) (simp_all add: example_model_def example_info_def)

lemmas run_eval =
  patched_example_fields example_planner_def spec_lib_def
  prologue_at_def ToMeBlock_forward_at_def ToMeVisionTransformer_forward_at_def
  example_block_zero_literal example_block_empty_literal numeral_2_eq_2

text \<open>
  Claim C7 as stated fails: two passes on one patched model whose events interleave
  share the dictionary. The second pass's prologue resets the schedule while the first
  pass is between its two blocks; the first pass then pops an entry of the second
  pass's schedule, and the second pass finds the schedule empty at its second block and
  raises IndexError, although the same pass alone returns.
\<close>

theorem overlapping_passes_counterexample:
  "snd (run_events (spec_lib dot example_planner)
          (fst (tome_apply_patch example_model empty_heap True True))
          [Enter 0 [[[1]]], Step 0, Enter 1 [[[1]]], Step 0, Step 0, Step 1, Step 1, Step 1]
          (snd (tome_apply_patch example_model empty_heap True True), (\<lambda>p. None))) 1
     = Some (Raised IndexError)
   \<and> fst (ToMeVisionTransformer_forward_at (spec_lib dot example_planner)
          (fst (tome_apply_patch example_model empty_heap True True))
          (snd (tome_apply_patch example_model empty_heap True True)) [[[1]]])
     = Inr [[[16]]]"
  by (simp add: run_eval)

lemma run_pass_alone:
  "run_events lib M
      (Enter p x # replicate (Suc (length (model_blocks (model_modules M)))) (Step p))
      (h, passes)
     = (snd (ToMeVisionTransformer_forward_at lib M h x),
        put_pass passes p
          (case fst (ToMeVisionTransformer_forward_at lib M h x) of
             Inl e \<Rightarrow> Raised e
           | Inr z \<Rightarrow> Returned z))"
proof (cases "prologue_at lib M h")
  case (Inl e)
  have idle: "run_events lib M (replicate n (Step p)) (h, put_pass passes p (Raised e))
                = (h, put_pass passes p (Raised e))" for n
    by (induction n) simp_all
  from Inl idle[of "Suc (length (model_blocks (model_modules M)))"] show ?thesis
    by (simp add: ToMeVisionTransformer_forward_at_def)
next
  case (Inr h1)
  obtain res h2 where b: "blocks_forward_at lib (model_blocks (model_modules M)) h1 (model_pre M x) = (res, h2)"
    by (cases "blocks_forward_at lib (model_blocks (model_modules M)) h1 (model_pre M x)")
  from Inr b run_steps_alone[of lib M "model_blocks (model_modules M)" p h1 passes "model_pre M x"]
  show ?thesis
    by (cases res) (simp_all add: ToMeVisionTransformer_forward_at_def)
qed

text \<open>
  Claim C7, as amended. The merge state is held in the one dictionary the model refers
  to: for a patched model, a forward pass is the state-passing forward on that
  dictionary, and what the pass leaves (schedule, size, source) stays in it. Every pass
  re-initialises the state in its prologue, so a pass that starts after another has
  ended returns or raises as it would have without the earlier pass. In the model of
  overlapping passes, a pass that runs without another in between is the forward call.
\<close>

theorem model_scoped_merge_state:
  fixes lib :: "'m tome_lib"
  assumes ref: "model_tome_info M = Some a" and d: "dicts h a = Some info"
      and r: "model_r M = Some r"
      and all: "list_all (\<lambda>m. fst m = ToMeBlock \<and> snd (snd m) = Some a)
                  (model_blocks (model_modules M))"
  shows "ToMeVisionTransformer_forward_at lib M h x
           = (outcome (ToMeVisionTransformer_forward lib (vit_of M r) info x),
              store_dict h a (final_info (ToMeVisionTransformer_forward lib (vit_of M r) info x)))
       \<and> fst (ToMeVisionTransformer_forward_at lib M
                 (snd (ToMeVisionTransformer_forward_at lib M h x1)) x2)
           = fst (ToMeVisionTransformer_forward_at lib M h x2)
       \<and> run_events lib M
            (Enter p x # replicate (Suc (length (model_blocks (model_modules M)))) (Step p))
            (h, passes)
           = (snd (ToMeVisionTransformer_forward_at lib M h x),
              put_pass passes p
                (case fst (ToMeVisionTransformer_forward_at lib M h x) of
                   Inl e \<Rightarrow> Raised e
                 | Inr z \<Rightarrow> Returned z))"
proof (intro conjI)
  show "ToMeVisionTransformer_forward_at lib M h x
           = (outcome (ToMeVisionTransformer_forward lib (vit_of M r) info x),
              store_dict h a (final_info (ToMeVisionTransformer_forward lib (vit_of M r) info x)))"
    using ref d r all by (rule forward_at_shared)
next
  let ?R1 = "ToMeVisionTransformer_forward lib (vit_of M r) info x1"
  let ?h1 = "store_dict h a (final_info ?R1)"
  have first: "ToMeVisionTransformer_forward_at lib M h x1 = (outcome ?R1, ?h1)"
    using ref d r all by (rule forward_at_shared)
  have d1: "dicts ?h1 a = Some (final_info ?R1)" by simp
  have second: "ToMeVisionTransformer_forward_at lib M ?h1 x2
           = (outcome (ToMeVisionTransformer_forward lib (vit_of M r) (final_info ?R1) x2),
              store_dict ?h1 a
                (final_info (ToMeVisionTransformer_forward lib (vit_of M r) (final_info ?R1) x2)))"
    using ref d1 r all by (rule forward_at_shared)
  have alone: "ToMeVisionTransformer_forward_at lib M h x2
           = (outcome (ToMeVisionTransformer_forward lib (vit_of M r) info x2),
              store_dict h a (final_info (ToMeVisionTransformer_forward lib (vit_of M r) info x2)))"
    using ref d r all by (rule forward_at_shared)
  have "config (final_info ?R1) = config info"
    by (rule forward_config)
  then have "outcome (ToMeVisionTransformer_forward lib (vit_of M r) (final_info ?R1) x2)
           = outcome (ToMeVisionTransformer_forward lib (vit_of M r) info x2)"
    by (rule forward_depends_on_config)
  then show "fst (ToMeVisionTransformer_forward_at lib M
                 (snd (ToMeVisionTransformer_forward_at lib M h x1)) x2)
           = fst (ToMeVisionTransformer_forward_at lib M h x2)"
    using first second alone by simp
next
  show "run_events lib M
            (Enter p x # replicate (Suc (length (model_blocks (model_modules M)))) (Step p))
            (h, passes)
           = (snd (ToMeVisionTransformer_forward_at lib M h x),
              put_pass passes p
                (case fst (ToMeVisionTransformer_forward_at lib M h x) of
                   Inl e \<Rightarrow> Raised e
                 | Inr z \<Rightarrow> Returned z))"
    by (rule run_pass_alone)
qed

theorem model_scoped_merge_state_witness:
  "model_tome_info (fst (tome_apply_patch example_model empty_heap True True)) = Some 0
   \<and> model_r (fst (tome_apply_patch example_model empty_heap True True)) = Some (RInt 0)
   \<and> list_all (\<lambda>m. fst m = ToMeBlock \<and> snd (snd m) = Some 0)
        (model_blocks (model_modules (fst (tome_apply_patch example_model empty_heap True True))))
   \<and> fst (ToMeVisionTransformer_forward_at (spec_lib dot example_planner)
            (fst (tome_apply_patch example_model empty_heap True True))
            (snd (ToMeVisionTransformer_forward_at (spec_lib dot example_planner)
                    (fst (tome_apply_patch example_model empty_heap True True))
                    (snd (tome_apply_patch example_model empty_heap True True)) [[[3]]]))
            [[[1]]])
       = Inr [[[16]]]"
proof -
  let ?M = "fst (tome_apply_patch example_model empty_heap True True)"
  let ?H = "snd (tome_apply_patch example_model empty_heap True True)"
  have ref: "model_tome_info ?M = Some 0" and r: "model_r ?M = Some (RInt 0)"
    by (simp_all add: patched_example_fields)
  have all: "list_all (\<lambda>m. fst m = ToMeBlock \<and> snd (snd m) = Some 0)
               (model_blocks (model_modules ?M))"
    by (simp add: patched_example_fields)
  note d = patched_example_fields(6)
  from model_scoped_merge_state[OF ref d r all, where lib = "spec_lib dot example_planner"
      and ?x1.0 = "[[[3]]]" and ?x2.0 = "[[[1]]]", THEN conjunct2, THEN conjunct1]
  have "fst (ToMeVisionTransformer_forward_at (spec_lib dot example_planner) ?M
              (snd (ToMeVisionTransformer_forward_at (spec_lib dot example_planner) ?M ?H [[[3]]]))
              [[[1]]])
          = fst (ToMeVisionTransformer_forward_at (spec_lib dot example_planner) ?M ?H [[[1]]])"
    by simp
  also have "\<dots> = Inr [[[16]]]"
    by (simp add: run_eval)
  finally show ?thesis
    using ref r all by simp
qed

subsection \<open>Failed trials of the benchmark\<close>

lemma run_failed:
  assumes "algorithm a \<in> set ALGO_MAP_keys" "cuda a = None" "timed a = Inl e"
      "isinstance_Exception e"
  shows "ThroughputBenchmark_run timed cuda self a
           = Inr (self\<lparr>results := results self @ [result_row a NaN NaN NaN ''failed'']\<rparr>)"
  using assms by (simp add: ThroughputBenchmark_run_def)

lemma run_length:
  assumes "algorithm a \<in> set ALGO_MAP_keys" "cuda a = None"
      and "\<forall>e. timed a = Inl e \<longrightarrow> isinstance_Exception e"
  shows "\<exists>r. ThroughputBenchmark_run timed cuda self a = Inr (self\<lparr>results := results self @ [r]\<rparr>)"
  using assms
  by (auto simp: ThroughputBenchmark_run_def split: sum.splits prod.splits if_splits)

lemma sweep_continues:
  assumes "list_all (\<lambda>a. algorithm a \<in> set ALGO_MAP_keys \<and> cuda a = None
              \<and> (case timed a of Inl e \<Rightarrow> isinstance_Exception e | Inr m \<Rightarrow> True)) as"
  shows "\<exists>self'. sweep timed cuda self as = Inr self'
           \<and> length (results self') = length (results self) + length as
           \<and> take (length (results self)) (results self') = results self"
  using assms
proof (induction as arbitrary: self)
  case Nil
  then show ?case by simp
next
  case (Cons a as)
  then have a: "algorithm a \<in> set ALGO_MAP_keys" "cuda a = None"
    "\<forall>e. timed a = Inl e \<longrightarrow> isinstance_Exception e"
    and rest: "list_all (\<lambda>a. algorithm a \<in> set ALGO_MAP_keys \<and> cuda a = None
              \<and> (case timed a of Inl e \<Rightarrow> isinstance_Exception e | Inr m \<Rightarrow> True)) as"
    by (auto split: sum.splits)
  from run_length[of a cuda timed self] a obtain r where
    r: "ThroughputBenchmark_run timed cuda self a = Inr (self\<lparr>results := results self @ [r]\<rparr>)"
    by blast
  from Cons.IH[OF rest, of "self\<lparr>results := results self @ [r]\<rparr>"] obtain self' where
    s: "sweep timed cuda (self\<lparr>results := results self @ [r]\<rparr>) as = Inr self'"
      "length (results self') = length (results self) + 1 + length as"
      "take (length (results self) + 1) (results self') = results self @ [r]"
    by auto
  have "take (length (results self)) (results self') = results self"
  proof -
    have "take (length (results self)) (take (length (results self) + 1) (results self'))
            = take (length (results self)) (results self @ [r])"
      using s(3) by simp
    then show ?thesis by (simp add: min_def)
  qed
  with r s show ?case by simp
qed

text \<open>
  Claim C9. When the timed part of a benchmark run raises an exception (out of memory
  or any other class derived from \<^verbatim>\<open>Exception\<close>), \<^verbatim>\<open>run\<close> returns: it appends one row to
  the results, with the not-a-number sentinel for latency, throughput and peak memory
  and the status "failed". A sweep over further configurations goes on after it: every
  configuration of the sweep gets its row, after the rows that were there.
\<close>

theorem failed_trial_is_recorded:
  assumes alg: "algorithm a \<in> set ALGO_MAP_keys" and cu: "cuda a = None"
      and raised: "timed a = Inl e" and exc: "isinstance_Exception e"
      and later: "list_all (\<lambda>a. algorithm a \<in> set ALGO_MAP_keys \<and> cuda a = None
              \<and> (case timed a of Inl e \<Rightarrow> isinstance_Exception e | Inr m \<Rightarrow> True)) as"
  shows "ThroughputBenchmark_run timed cuda self a
           = Inr (self\<lparr>results := results self @ [result_row a NaN NaN NaN ''failed'']\<rparr>)
       \<and> latency_ms (result_row a NaN NaN NaN ''failed'') = NaN
       \<and> throughput_samples_s (result_row a NaN NaN NaN ''failed'') = NaN
       \<and> peak_mem_mb (result_row a NaN NaN NaN ''failed'') = NaN
       \<and> status (result_row a NaN NaN NaN ''failed'') = ''failed''
       \<and> (\<exists>self'. sweep timed cuda self (a # as) = Inr self'
             \<and> length (results self') = length (results self) + 1 + length as
             \<and> take (length (results self) + 1) (results self')
                 = results self @ [result_row a NaN NaN NaN ''failed''])"
proof -
  let ?s1 = "self\<lparr>results := results self @ [result_row a NaN NaN NaN ''failed'']\<rparr>"
  have run: "ThroughputBenchmark_run timed cuda self a = Inr ?s1"
    using alg cu raised exc by (rule run_failed)
  from sweep_continues[OF later, of ?s1] obtain self' where
    "sweep timed cuda ?s1 as = Inr self'"
    "length (results self') = length (results ?s1) + length as"
    "take (length (results ?s1)) (results self') = results ?s1"
    by blast
  then have "sweep timed cuda self (a # as) = Inr self'
             \<and> length (results self') = length (results self) + 1 + length as
             \<and> take (length (results self) + 1) (results self')
                 = results self @ [result_row a NaN NaN NaN ''failed'']"
    using run by simp
  then show ?thesis
    using run by (auto simp: result_row_def)
qed

theorem failed_trial_is_recorded_witness:
  "algorithm example_args \<in> set ALGO_MAP_keys
   \<and> out_of_memory example_args = Inl OutOfMemoryError
   \<and> isinstance_Exception OutOfMemoryError
   \<and> sweep out_of_memory (\<lambda>a. None) \<lparr>device = ''cuda'', results = []\<rparr>
        [example_args, example_args\<lparr>batch_size := 4\<rparr>]
      = Inr \<lparr>device = ''cuda'',
             results = [result_row example_args NaN NaN NaN ''failed'',
                        result_row (example_args\<lparr>batch_size := 4\<rparr>)
                          (Num 250) (Num 16) (Num 1) ''success'']\<rparr>"
proof -
  have alg: "algorithm example_args \<in> set ALGO_MAP_keys"
    by (simp add: example_args_def ALGO_MAP_keys_def)
  have raised: "out_of_memory example_args = Inl OutOfMemoryError"
    by (simp add: out_of_memory_def example_args_def)
  have exc: "isinstance_Exception OutOfMemoryError"
    by simp
  have later: "list_all (\<lambda>a. algorithm a \<in> set ALGO_MAP_keys \<and> (\<lambda>a. None) a = None
              \<and> (case out_of_memory a of Inl e \<Rightarrow> isinstance_Exception e | Inr m \<Rightarrow> True))
            [example_args\<lparr>batch_size := 4\<rparr>]"
    by (simp add: example_args_def ALGO_MAP_keys_def out_of_memory_def)
  from failed_trial_is_recorded[OF alg _ raised exc later, of "\<lparr>device = ''cuda'', results = []\<rparr>"]
  have first: "ThroughputBenchmark_run out_of_memory (\<lambda>a. None) \<lparr>device = ''cuda'', results = []\<rparr>
                 example_args
               = Inr \<lparr>device = ''cuda'', results = [result_row example_args NaN NaN NaN ''failed'']\<rparr>"
    by simp
  have second: "ThroughputBenchmark_run out_of_memory (\<lambda>a. None)
                  \<lparr>device = ''cuda'', results = [result_row example_args NaN NaN NaN ''failed'']\<rparr>
                  (example_args\<lparr>batch_size := 4\<rparr>)
               = Inr \<lparr>device = ''cuda'',
                      results = [result_row example_args NaN NaN NaN ''failed'',
                        result_row (example_args\<lparr>batch_size := 4\<rparr>)
                          (Num 250) (Num 16) (Num 1) ''success'']\<rparr>"
    by (simp add: ThroughputBenchmark_run_def example_args_def ALGO_MAP_keys_def
        out_of_memory_def)
  show ?thesis
    using alg raised exc first second by simp
qed

subsection \<open>Conservation of the sizes\<close>

lemma length_evens: "length (evens xs) = (length xs + 1) div 2"
  by (induction xs rule: evens.induct) simp_all

lemma length_odds: "length (odds xs) = length xs div 2"
  by (induction xs rule: odds.induct) simp_all

lemma sum_evens_odds:
  fixes f :: "'a \<Rightarrow> real"
  shows "sum_list (map f (evens xs)) + sum_list (map f (odds xs)) = sum_list (map f xs)"
  by (induction xs rule: evens.induct) simp_all

lemma list_all_evens: "list_all P xs \<Longrightarrow> list_all P (evens xs)"
  by (induction xs rule: evens.induct) simp_all

lemma list_all_odds: "list_all P xs \<Longrightarrow> list_all P (odds xs)"
  by (induction xs rule: odds.induct) simp_all

lemma length_scatter: "length (scatter comb ps bs) = length bs"
  by (induction ps arbitrary: bs) auto

lemma sum_list_update_real:
  fixes f :: "'a \<Rightarrow> real"
  assumes "j < length bs"
  shows "sum_list (map f (bs[j := v])) = sum_list (map f bs) - f (bs ! j) + f v"
  using assms
proof (induction bs arbitrary: j)
  case Nil
  then show ?case by simp
next
  case (Cons b bs)
  then show ?case by (cases j) auto
qed

lemma scatter_props:
  fixes w :: "'a \<Rightarrow> real"
  assumes add: "\<And>a b. P a \<Longrightarrow> P b \<Longrightarrow> P (comb a b) \<and> w (comb a b) = w a + w b"
      and "list_all P bs" "list_all (\<lambda>q. fst q < length bs \<and> P (snd q)) ps"
  shows "list_all P (scatter comb ps bs)
       \<and> sum_list (map w (scatter comb ps bs)) = sum_list (map w bs) + sum_list (map (\<lambda>q. w (snd q)) ps)"
  using assms(2,3)
proof (induction ps arbitrary: bs)
  case Nil
  then show ?case by simp
next
  case (Cons q ps)
  obtain j a where q: "q = (j, a)" by (cases q)
  from Cons.prems q have j: "j < length bs" and a: "P a"
    and rest: "list_all (\<lambda>q. fst q < length bs \<and> P (snd q)) ps"
    by auto
  have Pj: "P (bs ! j)"
    using Cons.prems(1) j by (simp add: list_all_length)
  let ?bs = "bs[j := comb (bs ! j) a]"
  have P': "list_all P ?bs"
    using Cons.prems(1) add[OF Pj a] j
    by (auto simp: list_all_length nth_list_update)
  have rest': "list_all (\<lambda>q. fst q < length ?bs \<and> P (snd q)) ps"
    using rest by simp
  have "sum_list (map w ?bs) = sum_list (map w bs) + w a"
    using sum_list_update_real[OF j, of w "comb (bs ! j) a"] add[OF Pj a] by simp
  with Cons.IH[OF P' rest'] q show ?case by simp
qed

lemma sum_partition_indices:
  fixes g :: "nat \<Rightarrow> real"
  assumes "distinct src" "set src \<subseteq> {0..<n}"
  shows "sum_list (map g (filter (\<lambda>i. i \<notin> set src) [0..<n])) + sum_list (map g src)
           = sum_list (map g [0..<n])"
proof -
  have 1: "sum_list (map g src) = sum g (set src)"
    using assms(1) by (simp add: sum_list_distinct_conv_sum_set)
  have 2: "sum_list (map g (filter (\<lambda>i. i \<notin> set src) [0..<n])) = sum g ({0..<n} - set src)"
  proof -
    have "distinct (filter (\<lambda>i. i \<notin> set src) [0..<n])" by simp
    then have "sum_list (map g (filter (\<lambda>i. i \<notin> set src) [0..<n]))
                 = sum g (set (filter (\<lambda>i. i \<notin> set src) [0..<n]))"
      by (simp add: sum_list_distinct_conv_sum_set)
    moreover have "set (filter (\<lambda>i. i \<notin> set src) [0..<n]) = {0..<n} - set src"
      by auto
    ultimately show ?thesis by simp
  qed
  have 3: "sum_list (map g [0..<n]) = sum g {0..<n}"
    by (simp add: sum_list_distinct_conv_sum_set)
  have "sum g ({0..<n} - set src) + sum g (set src) = sum g {0..<n}"
    using assms(2) by (simp add: sum.subset_diff[of "set src" "{0..<n}" g] add.commute)
  with 1 2 3 show ?thesis by simp
qed

lemma sum_map_nth:
  fixes f :: "'a \<Rightarrow> real"
  shows "sum_list (map (\<lambda>i. f (A ! i)) [0..<length A]) = sum_list (map f A)"
proof -
  have "map (\<lambda>i. f (A ! i)) [0..<length A] = map f (map ((!) A) [0..<length A])"
    by simp
  also have "\<dots> = map f A"
    by (simp only: map_nth)
  finally show ?thesis by simp
qed

lemma best_edge_index: "B \<noteq> [] \<Longrightarrow> fst (best_edge sim a B) < length B"
  by (induction sim a B rule: best_edge.induct) (auto simp: Let_def split: prod.splits)

lemma match_seq_fits: "map_fits (match_seq sim r pc pd ms) (length ms)"
proof -
  define p :: nat where "p = (if pc then 1 else 0) + (if pd then 1 else 0)"
  define A where "A = evens (drop p ms)"
  define B where "B = odds (drop p ms)"
  define r' where "r' = (if r \<le> 0 then 0 else min (nat r) (min (length A) (length B)))"
  define edges where "edges = map (\<lambda>a. best_edge sim a B) A"
  define src where "src = take r' (sort_key (\<lambda>i. - snd (edges ! i)) [0..<length A])"
  have ms: "match_seq sim r pc pd ms =
              (if r' = 0 then Identity
               else Merge (length ms) p src (map (\<lambda>i. fst (edges ! i)) src))"
    unfolding match_seq_def Let_def p_def A_def B_def r'_def edges_def src_def by simp
  show ?thesis
  proof (cases "r' = 0")
    case True
    with ms show ?thesis by simp
  next
    case False
    then have "r' \<le> length B"
      by (auto simp: r'_def split: if_splits)
    with False have Bne: "B \<noteq> []" by auto
    have lenA: "length A = (length ms - p + 1) div 2"
      by (simp add: A_def length_evens)
    have lenB: "length B = (length ms - p) div 2"
      by (simp add: B_def length_odds)
    have d: "distinct src"
      unfolding src_def by (rule distinct_take) simp
    have sub: "set src \<subseteq> {0..<length A}"
    proof -
      have "set src \<subseteq> set (sort_key (\<lambda>i. - snd (edges ! i)) [0..<length A])"
        unfolding src_def by (rule set_take_subset)
      then show ?thesis by simp
    qed
    have dst: "list_all (\<lambda>j. j < length B) (map (\<lambda>i. fst (edges ! i)) src)"
    proof -
      have "fst (edges ! i) < length B" if "i \<in> set src" for i
      proof -
        from that sub have "i < length A" by auto
        then have "edges ! i = best_edge sim (A ! i) B"
          by (simp add: edges_def)
        with best_edge_index[OF Bne] show ?thesis by simp
      qed
      then show ?thesis by (simp add: list_all_iff)
    qed
    from False ms d sub dst lenA lenB show ?thesis by simp
  qed
qed

lemma length_unmerged:
  assumes "distinct src" "set src \<subseteq> {0..<n}"
  shows "length (filter (\<lambda>i. i \<notin> set src) [0..<n]) + length src = n"
proof -
  have "sum_list (map (\<lambda>i. 1::real) (filter (\<lambda>i. i \<notin> set src) [0..<n]))
          + sum_list (map (\<lambda>i. 1::real) src) = sum_list (map (\<lambda>i. 1::real) [0..<n])"
    using assms by (rule sum_partition_indices)
  then have "real (length (filter (\<lambda>i. i \<notin> set src) [0..<n])) + real (length src) = real n"
    by (simp add: sum_list_triv)
  then show ?thesis by linarith
qed

lemma merge_seq_length_cong:
  assumes "merge_seq c1 mp xs = Inr ys" "merge_seq c2 mp xs' = Inr ys'" "length xs = length xs'"
  shows "length ys = length ys'"
  using assms
  by (cases mp) (auto simp: merge_seq_def Let_def length_evens length_odds length_scatter
      split: if_splits)

lemma merge_seq_props:
  fixes w :: "'a \<Rightarrow> real"
  assumes add: "\<And>a b. P a \<Longrightarrow> P b \<Longrightarrow> P (comb a b) \<and> w (comb a b) = w a + w b"
      and res: "merge_seq comb mp xs = Inr ys"
      and fits: "map_fits mp (length xs)"
      and P: "list_all P xs"
  shows "list_all P ys \<and> sum_list (map w ys) = sum_list (map w xs)"
proof (cases mp)
  case Identity
  with res P show ?thesis by (simp add: merge_seq_def)
next
  case (Merge n p src dst)
  define A where "A = evens (drop p xs)"
  define B where "B = odds (drop p xs)"
  define unm where "unm = map ((!) A) (filter (\<lambda>i. i \<notin> set src) [0..<length A])"
  define ps where "ps = zip dst (map ((!) A) src)"
  from fits Merge have n: "n = length xs" and d: "distinct src"
    and sub: "set src \<subseteq> {0..<length A}" and len: "length dst = length src"
    and dst: "list_all (\<lambda>j. j < length B) dst"
    by (simp_all add: A_def B_def length_evens length_odds)
  have ys: "ys = take p xs @ unm @ scatter comb ps B"
    using res Merge n by (simp add: merge_seq_def Let_def A_def B_def unm_def ps_def)
  have Pdrop: "list_all P (drop p xs)"
    using P by (auto simp: list_all_iff dest: in_set_dropD)
  have PA: "list_all P A" and PB: "list_all P B"
    using Pdrop by (simp_all add: A_def B_def list_all_evens list_all_odds)
  have Ptake: "list_all P (take p xs)"
    using P by (auto simp: list_all_iff dest: in_set_takeD)
  have PAi: "P (A ! i)" if "i < length A" for i
    using PA that by (simp add: list_all_length)
  have Punm: "list_all P unm"
    by (auto simp: unm_def list_all_iff PAi)
  have pre: "list_all (\<lambda>q. fst q < length B \<and> P (snd q)) ps"
  proof -
    have "fst q < length B \<and> P (snd q)" if "q \<in> set ps" for q
    proof -
      from that obtain k where k: "k < length ps" "q = ps ! k"
        by (auto simp: in_set_conv_nth)
      then have kl: "k < length src" "k < length dst"
        using len by (simp_all add: ps_def)
      then have q: "q = (dst ! k, A ! (src ! k))"
        using k by (simp add: ps_def)
      have "src ! k < length A"
        using sub kl(1) by (auto simp: subset_iff)
      moreover have "dst ! k < length B"
        using dst kl(2) by (simp add: list_all_length)
      ultimately show ?thesis
        using q PAi by simp
    qed
    then show ?thesis by (simp add: list_all_iff)
  qed
  from scatter_props[of P comb w, OF add PB pre]
  have Psc: "list_all P (scatter comb ps B)"
    and ssc: "sum_list (map w (scatter comb ps B))
                = sum_list (map w B) + sum_list (map (\<lambda>q. w (snd q)) ps)"
    by auto
  have sps: "sum_list (map (\<lambda>q. w (snd q)) ps) = sum_list (map (\<lambda>i. w (A ! i)) src)"
  proof -
    have "map snd ps = map ((!) A) src"
      using len by (simp add: ps_def)
    then have "map w (map snd ps) = map w (map ((!) A) src)"
      by (rule arg_cong)
    then have "map (\<lambda>q. w (snd q)) ps = map (\<lambda>i. w (A ! i)) src"
      by (simp only: map_map comp_def)
    then show ?thesis by (rule arg_cong)
  qed
  have sunm: "sum_list (map w unm)
                = sum_list (map (\<lambda>i. w (A ! i)) (filter (\<lambda>i. i \<notin> set src) [0..<length A]))"
    by (simp add: unm_def comp_def)
  have part: "sum_list (map (\<lambda>i. w (A ! i)) (filter (\<lambda>i. i \<notin> set src) [0..<length A]))
                + sum_list (map (\<lambda>i. w (A ! i)) src) = sum_list (map w A)"
    using sum_partition_indices[OF d sub, of "\<lambda>i. w (A ! i)"] sum_map_nth[of w A] by simp
  have AB: "sum_list (map w A) + sum_list (map w B) = sum_list (map w (drop p xs))"
    unfolding A_def B_def by (rule sum_evens_odds)
  have td: "sum_list (map w (take p xs)) + sum_list (map w (drop p xs)) = sum_list (map w xs)"
  proof -
    have "map w xs = map w (take p xs) @ map w (drop p xs)"
      by (simp only: map_append[symmetric] append_take_drop_id)
    then show ?thesis by (simp only: sum_list_append)
  qed
  have "sum_list (map w ys)
          = sum_list (map w (take p xs)) + sum_list (map w unm) + sum_list (map w (scatter comb ps B))"
    unfolding ys by simp
  then have "sum_list (map w ys) = sum_list (map w xs)"
    using ssc sps sunm part AB td by linarith
  moreover have "list_all P ys"
    using ys Ptake Punm Psc by simp
  ultimately show ?thesis by simp
qed

lemma sequence_Inr:
  "sequence rs = Inr vs \<Longrightarrow> length vs = length rs \<and> (\<forall>i<length rs. rs ! i = Inr (vs ! i))"
proof (induction rs arbitrary: vs rule: sequence.induct)
  case 1
  then show ?case by simp
next
  case (2 e rs)
  then show ?case by simp
next
  case (3 v rs)
  from "3.prems" obtain vs' where s: "sequence rs = Inr vs'" and vs: "vs = v # vs'"
    by (auto split: sum.splits)
  from "3.IH"[OF s] vs show ?case
    by (auto simp: nth_Cons split: nat.splits)
qed

lemma merge_batch_Inr:
  assumes "merge_batch comb merge x = Inr y"
  shows "length merge = length x" "length y = length x"
    "\<And>b. b < length x \<Longrightarrow> merge_seq comb (merge ! b) (x ! b) = Inr (y ! b)"
proof -
  from assms have lm: "length merge = length x"
    and s: "sequence (map2 (merge_seq comb) merge x) = Inr y"
    by (auto simp: merge_batch_def split: if_splits)
  show "length merge = length x" by (rule lm)
  from sequence_Inr[OF s] lm show "length y = length x" by simp
  show "merge_seq comb (merge ! b) (x ! b) = Inr (y ! b)" if "b < length x" for b
    using sequence_Inr[OF s] lm that by auto
qed

lemma map_fits_checked:
  assumes "map_fits mp m" "merge_seq comb mp xs = Inr ys"
  shows "map_fits mp (length xs)"
  using assms by (cases mp) (auto simp: merge_seq_def split: if_splits)

lemma size_token_add:
  "size_token a \<Longrightarrow> size_token b \<Longrightarrow>
     size_token (map2 (+) a b) \<and> sum_list (map2 (+) a b) = sum_list a + sum_list b"
  by (cases a; cases b) (auto simp: size_token_def)

lemma ones_like_cong: "map length x = map length y \<Longrightarrow> ones_like x = ones_like y"
proof (induction x arbitrary: y)
  case Nil
  then show ?case by (simp add: ones_like_def)
next
  case (Cons a x)
  then obtain b y' where y: "y = b # y'" by (cases y) auto
  with Cons.prems have l: "length a = length b" and r: "map length x = map length y'"
    by auto
  have "map (\<lambda>t. [1::real]) a = map (\<lambda>t. [1]) b"
    using l by (simp add: map_replicate_const)
  with Cons.IH[OF r] y show ?case
    by (simp add: ones_like_def)
qed

lemma ones_like_props:
  "map length (ones_like x) = map length x"
  "list_all (list_all size_token) (ones_like x)"
  "map (\<lambda>sb. sum_list (concat sb)) (ones_like x) = map (\<lambda>xb. real (length xb)) x"
proof -
  show "map length (ones_like x) = map length x"
    by (simp add: ones_like_def comp_def)
  show "list_all (list_all size_token) (ones_like x)"
    by (simp add: ones_like_def list_all_iff size_token_def)
  have "sum_list (concat (map (\<lambda>t. [1::real]) xb)) = real (length xb)" for xb :: seq
    by (induction xb) simp_all
  then show "map (\<lambda>sb. sum_list (concat sb)) (ones_like x) = map (\<lambda>xb. real (length xb)) x"
    by (simp add: ones_like_def comp_def)
qed

lemma shape_map_length: "shape x = shape y \<Longrightarrow> map length x = map length y"
proof -
  assume "shape x = shape y"
  then have "map length (map (map length) x) = map length (map (map length) y)"
    by (simp add: shape_def)
  then show ?thesis by (simp add: comp_def)
qed

lemma sum_list_concat_real:
  fixes xss :: "real list list"
  shows "sum_list (concat xss) = sum_list (map sum_list xss)"
  by (induction xss) simp_all

lemma spec_merge_wavg_props:
  assumes res: "spec_merge_wavg merge x sopt = Inr (x', sz')"
      and fits: "list_all (\<lambda>mp. \<exists>m. map_fits mp m) merge"
      and tok: "list_all (list_all size_token) (case sopt of None \<Rightarrow> ones_like x | Some s \<Rightarrow> s)"
  shows "map length x' = map length sz'"
    and "list_all (list_all size_token) sz'"
    and "map (\<lambda>sb. sum_list (concat sb)) sz'
           = map (\<lambda>sb. sum_list (concat sb)) (case sopt of None \<Rightarrow> ones_like x | Some s \<Rightarrow> s)"
proof -
  define sz where "sz = (case sopt of None \<Rightarrow> ones_like x | Some s \<Rightarrow> s)"
  define xw where "xw = map2 (map2 (\<lambda>t s. map (\<lambda>v. v * hd s) t)) x sz"
  from res obtain xs where
    sh: "shape sz = shape (ones_like x)"
    and mx: "merge_batch (map2 (+)) merge xw = Inr xs"
    and ms: "merge_batch (map2 (+)) merge sz = Inr sz'"
    and x': "x' = map2 (map2 (\<lambda>t s. map (\<lambda>v. v / hd s) t)) xs sz'"
    unfolding spec_merge_wavg_def Let_def sz_def[symmetric] xw_def[symmetric]
    by (auto split: if_splits sum.splits)
  have mlsz: "map length sz = map length x"
    using shape_map_length[OF sh] by (simp add: ones_like_props(1))
  have lsz: "length sz = length x"
    using mlsz by (metis length_map)
  note bs = merge_batch_Inr[OF ms] and bx = merge_batch_Inr[OF mx]
  have lxw: "length xw = length sz"
    using bx(1) bs(1) by simp
  have lenb: "length (xw ! b) = length (sz ! b)" if "b < length sz" for b
  proof -
    have "length (x ! b) = length (sz ! b)"
      using mlsz that lsz by (metis nth_map)
    moreover have "xw ! b = map2 (\<lambda>t s. map (\<lambda>v. v * hd s) t) (x ! b) (sz ! b)"
      using that lsz by (simp add: xw_def)
    ultimately show ?thesis by simp
  qed
  have per: "list_all size_token (sz' ! b)
           \<and> sum_list (map sum_list (sz' ! b)) = sum_list (map sum_list (sz ! b))
           \<and> length (xs ! b) = length (sz' ! b)"
    if b: "b < length sz" for b
  proof -
    have r1: "merge_seq (map2 (+)) (merge ! b) (sz ! b) = Inr (sz' ! b)"
      using bs(3)[OF b] .
    have r2: "merge_seq (map2 (+)) (merge ! b) (xw ! b) = Inr (xs ! b)"
      using bx(3)[of b] b lxw by simp
    from fits b bs(1) obtain m where "map_fits (merge ! b) m"
      by (auto simp: list_all_length)
    then have f: "map_fits (merge ! b) (length (sz ! b))"
      using r1 by (rule map_fits_checked)
    have P: "list_all size_token (sz ! b)"
      using tok b by (simp add: sz_def[symmetric] list_all_length)
    from merge_seq_props[of size_token "map2 (+)" sum_list, OF size_token_add r1 f P]
    have "list_all size_token (sz' ! b)"
      "sum_list (map sum_list (sz' ! b)) = sum_list (map sum_list (sz ! b))"
      by auto
    moreover have "length (xs ! b) = length (sz' ! b)"
      using merge_seq_length_cong[OF r2 r1 lenb[OF b]] .
    ultimately show ?thesis by simp
  qed
  have lsz': "length sz' = length sz" by (rule bs(2))
  have lxs: "length xs = length sz" using bx(2) lxw by simp
  show "list_all (list_all size_token) sz'"
    using per lsz' by (simp add: list_all_length)
  show "map (\<lambda>sb. sum_list (concat sb)) sz' = map (\<lambda>sb. sum_list (concat sb)) sz"
    using per lsz' by (intro nth_equalityI) (simp_all add: sum_list_concat_real)
  have "map length xs = map length sz'"
    using per lsz' lxs by (intro nth_equalityI) simp_all
  then have "map length (map2 (map2 (\<lambda>t s. map (\<lambda>v. v / hd s) t)) xs sz') = map length xs"
    by (rule map_map2_same) simp
  then show "map length x' = map length sz'"
    using x' \<open>map length xs = map length sz'\<close> by simp
qed

lemma spec_matcher_fits:
  assumes "spec_bipartite_soft_matching sim m r pc pd = Inr (merge, unmerge)"
  shows "list_all (\<lambda>mp. \<exists>n. map_fits mp n) merge"
proof -
  from assms obtain t where "merge = map (match_seq sim r pc pd) t"
    by (auto simp: spec_bipartite_soft_matching_def Let_def split: pyval.splits)
  moreover have "\<exists>n. map_fits (match_seq sim r pc pd ms) n" for ms
    using match_seq_fits by blast
  ultimately show ?thesis
    by (simp add: list_all_iff)
qed

lemma current_size_shape:
  assumes "shape x' = shape x" "tome_size info' = tome_size info"
  shows "current_size info' x' = current_size info x"
  using assms ones_like_cong[OF shape_map_length[OF assms(1)]]
  by (simp add: current_size_def split: option.splits)

lemma size_inv_shape:
  assumes "size_inv x0 x info" "shape x' = shape x" "tome_size info' = tome_size info"
  shows "size_inv x0 x' info'"
  using assms current_size_shape[OF assms(2,3)] shape_map_length[OF assms(2)]
  by (simp add: size_inv_def)

lemma tome_merge_size_inv:
  assumes res: "tome_merge (spec_lib sim planner) info m r x = Inr (x', info')"
      and inv: "size_inv x0 x info"
  shows "size_inv x0 x' info'"
proof -
  from res obtain merge unmerge and info1 :: tome_info and sz' where
    mt: "spec_bipartite_soft_matching sim m r (class_token info) (distill_token info)
           = Inr (merge, unmerge)"
    and sz1: "tome_size info1 = tome_size info"
    and wa: "spec_merge_wavg merge x (tome_size info1) = Inr (x', sz')"
    and i': "tome_size info' = Some sz'"
    by (auto simp: tome_merge_def spec_lib_def split: sum.splits prod.splits if_splits)
  have cs: "(case tome_size info1 of None \<Rightarrow> ones_like x | Some s \<Rightarrow> s) = current_size info x"
    using sz1 by (simp add: current_size_def)
  have tok: "list_all (list_all size_token)
               (case tome_size info1 of None \<Rightarrow> ones_like x | Some s \<Rightarrow> s)"
    using inv cs by (simp add: size_inv_def)
  note p = spec_merge_wavg_props[OF wa spec_matcher_fits[OF mt] tok]
  have "current_size info' x' = sz'"
    using i' by (simp add: current_size_def)
  then show ?thesis
    using p inv cs by (simp add: size_inv_def)
qed

lemma ToMeBlock_forward_size_inv:
  assumes res: "ToMeBlock_forward (spec_lib sim planner) b info x = Inr (x', info')"
      and inv: "size_inv x0 x info"
  shows "size_inv x0 x' info'"
proof -
  from res obtain x1 m where ar: "attend_residual b info x = Inr (x1, m)"
    by (auto simp: ToMeBlock_forward_def split: sum.splits)
  from res ar obtain r rest where pop: "pop0 (tome_r info) = Inr (r, rest)"
    by (auto simp: ToMeBlock_forward_def split: sum.splits)
  have inv1: "size_inv x0 x1 (info\<lparr>tome_r := rest\<rparr>)"
    using inv attend_residual_shape[OF ar] by (rule size_inv_shape) simp
  show ?thesis
  proof (cases "r > 0")
    case True
    from res ar pop True obtain x2 where
      tm: "tome_merge (spec_lib sim planner) (info\<lparr>tome_r := rest\<rparr>) m r x1 = Inr (x2, info')"
      and mr: "mlp_residual b x2 = Inr x'"
      by (auto simp: ToMeBlock_forward_def split: sum.splits prod.splits)
    from tome_merge_size_inv[OF tm inv1] have "size_inv x0 x2 info'" .
    then show ?thesis
      using mlp_residual_shape[OF mr] by (rule size_inv_shape) simp
  next
    case False
    from res ar pop False have i': "info' = info\<lparr>tome_r := rest\<rparr>"
      and mr: "mlp_residual b x1 = Inr x'"
      by (auto simp: ToMeBlock_forward_def split: sum.splits prod.splits)
    show ?thesis
      using inv1 mlp_residual_shape[OF mr] unfolding i' by (rule size_inv_shape) simp
  qed
qed

lemma blocks_forward_size_inv:
  assumes "blocks_forward (spec_lib sim planner) bs info x = Inr (x', info')"
      and "size_inv x0 x info"
  shows "size_inv x0 x' info'"
  using assms
proof (induction bs arbitrary: info x)
  case Nil
  then show ?case by simp
next
  case (Cons b bs)
  from Cons.prems(1) obtain x1 i1 where
    b: "ToMeBlock_forward (spec_lib sim planner) b info x = Inr (x1, i1)"
    and rest: "blocks_forward (spec_lib sim planner) bs i1 x1 = Inr (x', info')"
    by (auto split: sum.splits)
  from ToMeBlock_forward_size_inv[OF b Cons.prems(2)] have "size_inv x0 x1 i1" .
  with rest show ?case by (rule Cons.IH)
qed

text \<open>
  Claim C1. With the matcher and the applicator of the specification: after the prologue
  of a forward pass, whatever blocks of the model have run and returned, the size tensor
  (all ones while uninitialised) has one entry per current token, every entry is at
  least 1, and for every batch element the entries sum to the number of tokens the block
  stack started from.
\<close>

theorem size_conservation:
  assumes pro: "prologue (spec_lib sim planner) self info0 = Inr info1"
      and stack: "blocks self = before @ rest"
      and run: "blocks_forward (spec_lib sim planner) before info1 (pre_blocks self x0) = Inr (x, info)"
  shows "map (\<lambda>sb. sum_list (concat sb)) (current_size info x)
           = map (\<lambda>xb. real (length xb)) (pre_blocks self x0)
       \<and> map length (current_size info x) = map length x
       \<and> list_all (list_all size_token) (current_size info x)"
proof -
  have "tome_size info1 = None"
    using pro by (auto simp: prologue_def split: sum.splits)
  then have "current_size info1 (pre_blocks self x0) = ones_like (pre_blocks self x0)"
    by (simp add: current_size_def)
  then have "size_inv (pre_blocks self x0) (pre_blocks self x0) info1"
    by (simp add: size_inv_def ones_like_props)
  with run have "size_inv (pre_blocks self x0) x info"
    by (rule blocks_forward_size_inv)
  then show ?thesis
    by (simp add: size_inv_def)
qed

lemma example_attend3:
  "\<exists>x1. attend_residual example_block (example_info\<lparr>tome_r := RList [1]\<rparr>) [[[1], [2], [3]]]
          = Inr (x1, PyTensor [[[1], [2], [3]]]) \<and> shape x1 = [[1, 1, 1]]"
  by (simp add: attend_residual_def example_block_def example_info_def attn_eval
      ToMeBlock_drop_path1_def tensor_add_def upt_rec[of 0] upt_rec[of 1] upt_rec[of 2]
      upt_rec[of "Suc 0"] upt_rec[of "Suc (Suc 0)"] numeral_2_eq_2 numeral_3_eq_3)

lemma example_match3:
  "match_seq dot 1 False False [[1], [2], [3]] = Merge 3 0 [1] [0]"
  by (simp add: match_seq_def dot_def Let_def numeral_2_eq_2 numeral_3_eq_3 upt_rec[of 0] upt_rec[of 1]
      upt_rec[of "Suc 0"])


lemma shape_three_tokens:
  assumes "shape x = [[1, 1, 1]]"
  shows "\<exists>a b c. x = [[[a], [b], [c]]]"
proof -
  from assms obtain xb where x: "x = [xb]" and l: "map length xb = [1, 1, 1]"
    by (cases x) (auto simp: shape_def)
  from l obtain t u v where xb: "xb = [t, u, v]"
    and len: "length t = 1" "length u = 1" "length v = 1"
    by (cases xb; cases "tl xb"; cases "tl (tl xb)") auto
  from len obtain a b c where "t = [a]" "u = [b]" "v = [c]"
    by (cases t; cases u; cases v) auto
  with x xb show ?thesis by simp
qed

lemma example_merge3:
  "\<exists>src. tome_merge (spec_lib dot example_planner) (example_info\<lparr>tome_r := RList []\<rparr>)
      (PyTensor [[[1], [2], [3]]]) 1 [[[a], [b], [c]]]
     = Inr ([[[a], [(b + c) / 2]]],
            example_info\<lparr>tome_r := RList [], tome_size := Some [[[1], [2]]],
                         tome_source := Some src\<rparr>)"
  by (simp add: tome_merge_def spec_lib_def spec_bipartite_soft_matching_def example_match3
      example_info_def spec_merge_source_def spec_merge_wavg_def merge_batch_def merge_seq_def
      ones_like_def shape_def eye_def Let_def numeral_2_eq_2 numeral_3_eq_3
      upt_rec[of 0] upt_rec[of 1] upt_rec[of "Suc 0"] upt_rec[of 2] upt_rec[of "Suc (Suc 0)"])


theorem size_conservation_witness:
  "prologue (spec_lib dot example_planner) (example_vit [example_block] (RInt 1)) example_info
     = Inr (example_info\<lparr>tome_r := RList [1]\<rparr>)
   \<and> (\<exists>x info.
         blocks_forward (spec_lib dot example_planner) [example_block]
             (example_info\<lparr>tome_r := RList [1]\<rparr>) [[[1], [2], [3]]] = Inr (x, info)
       \<and> tome_size info = Some [[[1], [2]]]
       \<and> map (\<lambda>sb. sum_list (concat sb)) (current_size info x) = [3])"
proof -
  let ?L = "spec_lib dot example_planner"
  let ?V = "example_vit [example_block] (RInt 1) :: (tensor, tensor) vit"
  let ?I = "example_info\<lparr>tome_r := RList [1]\<rparr>"
  have pro: "prologue ?L ?V example_info = Inr ?I"
    by (simp add: prologue_def spec_lib_def example_planner_def example_vit_def example_info_def)
  have stack: "blocks ?V = [example_block] @ []"
    by (simp add: example_vit_def)
  from example_attend3 obtain x1 where
    ar: "attend_residual example_block ?I [[[1], [2], [3]]] = Inr (x1, PyTensor [[[1], [2], [3]]])"
    and sh: "shape x1 = [[1, 1, 1]]"
    by blast
  from shape_three_tokens[OF sh] obtain a b c where x1: "x1 = [[[a], [b], [c]]]"
    by blast
  from example_merge3[of a b c] obtain src where
    tm: "tome_merge ?L (example_info\<lparr>tome_r := RList []\<rparr>)
           (PyTensor [[[1], [2], [3]]]) 1 [[[a], [b], [c]]]
         = Inr ([[[a], [(b + c) / 2]]],
                example_info\<lparr>tome_r := RList [], tome_size := Some [[[1], [2]]],
                             tome_source := Some src\<rparr>)"
    by blast
  have pop: "pop0 (tome_r ?I) = Inr (1, RList [])"
    by simp
  have upd: "?I\<lparr>tome_r := RList []\<rparr> = example_info\<lparr>tome_r := RList []\<rparr>"
    by simp
  have "\<exists>x. ToMeBlock_forward ?L example_block ?I [[[1], [2], [3]]]
         = Inr (x, example_info\<lparr>tome_r := RList [], tome_size := Some [[[1], [2]]],
                             tome_source := Some src\<rparr>)"
    unfolding ToMeBlock_forward_def ar x1
    by (simp add: pop upd tm mlp_residual_def ToMeBlock_drop_path2_def example_block_def
        tensor_add_def)
  then obtain x where
    run: "blocks_forward ?L [example_block] ?I (pre_blocks ?V [[[1], [2], [3]]])
            = Inr (x, example_info\<lparr>tome_r := RList [], tome_size := Some [[[1], [2]]],
                             tome_source := Some src\<rparr>)"
    by (auto simp: example_vit_def)
  from size_conservation[OF pro stack run]
  have "map (\<lambda>sb. sum_list (concat sb))
          (current_size (example_info\<lparr>tome_r := RList [], tome_size := Some [[[1], [2]]],
                             tome_source := Some src\<rparr>) x) = [3]"
    by (simp add: example_vit_def)
  with run pro show ?thesis
    by (auto simp: example_vit_def)
qed

end
